theory Spec2Isabelle
  imports Complex_Main
begin

section \<open>The animated counter widget of \<open>PerformanceMetrics.tsx\<close>\<close>

text \<open>
  The component loads a catalog of metrics, waits for an intersection observer to report
  that its section is visible, and then counts every metric up to its configured value in
  200 timer ticks.  The model follows the component effect by effect: the three
  \<open>useEffect\<close> bodies are functions on the component's state, the callbacks of the
  promise, of the observer and of the interval timer are the events of a step function.
\<close>

subsection \<open>JavaScript numbers\<close>

text \<open>
  A finite JavaScript number is a double, and every double is a real number: numbers are
  modelled by reals. \<open>NaN\<close> is a value of its own, because a read past the end of an
  array gives \<open>undefined\<close>, which every arithmetic operation and comparison of the
  component turns into \<open>NaN\<close>. Arithmetic with \<open>NaN\<close> gives \<open>NaN\<close>, every comparison
  with \<open>NaN\<close> is false.
\<close>

datatype number = Num real | NaN

text \<open>
  The operations that round are parameters of the model: the product, the difference
  and the quotient of two doubles, \<open>Math.pow\<close> (whose precision the language leaves to the
  implementation), and the double that a decimal literal denotes. Comparisons,
  \<open>Math.floor\<close> and \<open>Math.round\<close> are exact on doubles and need no parameter. Of the
  literals of the component only \<open>0.3\<close> is not a double itself.
\<close>

record Arithmetic =
  mul :: "real \<Rightarrow> real \<Rightarrow> real"
  sub :: "real \<Rightarrow> real \<Rightarrow> real"
  quot :: "real \<Rightarrow> real \<Rightarrow> real"
  pow :: "real \<Rightarrow> real \<Rightarrow> real"
  lit :: "real \<Rightarrow> real"

text \<open>
  Arithmetic without rounding: the operations of the real numbers. A function of the
  component takes the arithmetic as its first argument and has a name ending in \<open>_in\<close>;
  the name without this ending stands for the function in exact arithmetic.
\<close>

definition exact :: Arithmetic where
  "exact = \<lparr>mul = (*), sub = (-), quot = (/), pow = (powr), lit = (\<lambda>x. x)\<rparr>"

text \<open>
  Arithmetic with rounding: every result is rounded to the nearest number with 53
  significant bits and an exponent of at least -1022, a tie to the even neighbour, and
  \<open>Math.pow\<close> is taken to round correctly as well. Results beyond the largest double
  are not covered.
\<close>

definition roundTiesToEven :: "real \<Rightarrow> int" where
  "roundTiesToEven y =
     (let f = \<lfloor>y\<rfloor> in
      if y - of_int f < 1 / 2 then f
      else if 1 / 2 < y - of_int f then f + 1
      else if even f then f else f + 1)"

definition binary64 :: "real \<Rightarrow> real" where
  "binary64 x =
     (let e = max (- 1022) \<lfloor>log 2 \<bar>x\<bar>\<rfloor>;
          ulp = 2 powr (of_int e - 52)
      in ulp * of_int (roundTiesToEven (x / ulp)))"

definition rounded :: Arithmetic where
  "rounded =
     \<lparr>mul = (\<lambda>a b. binary64 (a * b)), sub = (\<lambda>a b. binary64 (a - b)),
      quot = (\<lambda>a b. binary64 (a / b)), pow = (\<lambda>a b. binary64 (a powr b)),
      lit = binary64\<rparr>"

fun js_mul_in :: "Arithmetic \<Rightarrow> number \<Rightarrow> number \<Rightarrow> number" where
  "js_mul_in ar (Num a) (Num b) = Num (mul ar a b)"
| "js_mul_in ar _ _ = NaN"

abbreviation js_mul :: "number \<Rightarrow> number \<Rightarrow> number" where
  "js_mul \<equiv> js_mul_in exact"

fun js_lt :: "number \<Rightarrow> number \<Rightarrow> bool" where
  "js_lt (Num a) (Num b) = (a < b)"
| "js_lt _ _ = False"

fun js_le :: "number \<Rightarrow> number \<Rightarrow> bool" where
  "js_le (Num a) (Num b) = (a \<le> b)"
| "js_le _ _ = False"

fun Math_floor :: "number \<Rightarrow> number" where
  "Math_floor (Num a) = Num (of_int \<lfloor>a\<rfloor>)"
| "Math_floor NaN = NaN"

text \<open>\<open>Math.round\<close> rounds to the nearest integer, a tie towards plus infinity.\<close>

fun Math_round :: "number \<Rightarrow> number" where
  "Math_round (Num a) = Num (of_int \<lfloor>a + 1 / 2\<rfloor>)"
| "Math_round NaN = NaN"

text \<open>\<open>xs[i]\<close> on a number array: \<open>undefined\<close> (here \<open>NaN\<close>) past the end.\<close>

definition js_index :: "number list \<Rightarrow> nat \<Rightarrow> number" where
  "js_index xs i = (if i < length xs then xs ! i else NaN)"

subsection \<open>Data\<close>

text \<open>
  What a lookup in \<open>iconMap\<close> can give: one of its four icons, or, since \<open>iconMap\<close> is a
  plain object, the member of \<open>Object.prototype\<close> that the key names.
\<close>

datatype icon = Activity | Clock | TrendingUp | Zap | Inherited string

definition iconMap :: "(string \<times> icon) list" where
  "iconMap = [(''Activity'', Activity), (''Clock'', Clock),
              (''TrendingUp'', TrendingUp), (''Zap'', Zap)]"

text \<open>The property names of \<open>Object.prototype\<close>; the value of each is an object or a function.\<close>

definition objectPrototypeKeys :: "string list" where
  "objectPrototypeKeys =
     [''constructor'', ''hasOwnProperty'', ''isPrototypeOf'', ''propertyIsEnumerable'',
      ''toLocaleString'', ''toString'', ''valueOf'', ''__proto__'', ''__defineGetter__'',
      ''__defineSetter__'', ''__lookupGetter__'', ''__lookupSetter__'']"

text \<open>
  \<open>iconMap[metric.icon] || iconMap.Activity\<close>: an inherited member is not falsy, so the
  fallback is taken only for a key that neither the object nor its prototype has.
\<close>

definition resolveIcon :: "string \<Rightarrow> icon" where
  "resolveIcon k =
     (case map_of iconMap k of
        Some i \<Rightarrow> i
      | None \<Rightarrow> if k \<in> set objectPrototypeKeys then Inherited k else Activity)"

record MetricConfig =
  id_c :: string
  label_c :: string
  value_c :: number
  suffix_c :: string
  icon_c :: string
  color_c :: string
  displayAsK :: "bool option"

record Metric =
  id_m :: string
  label_m :: string
  value_m :: number
  suffix_m :: string
  icon_m :: icon
  color_m :: string

text \<open>The element of \<open>initialMetrics\<close> built from one entry of the catalog.\<close>

definition initialMetric :: "MetricConfig \<Rightarrow> Metric" where
  "initialMetric metric =
     \<lparr>id_m = id_c metric, label_m = label_c metric, value_m = Num 0,
      suffix_m = suffix_c metric, icon_m = resolveIcon (icon_c metric),
      color_m = color_c metric\<rparr>"

subsection \<open>Easing and the per-metric update\<close>

definition easeOutExpoSlow_in :: "Arithmetic \<Rightarrow> real \<Rightarrow> real" where
  "easeOutExpoSlow_in ar t =
     (if t = 1 then 1 else sub ar 1 (mul ar (pow ar 2 (mul ar (- 10) t)) (lit ar 0.3)))"

abbreviation easeOutExpoSlow :: "real \<Rightarrow> real" where
  "easeOutExpoSlow \<equiv> easeOutExpoSlow_in exact"

definition duration :: real where
  "duration = 3500"

definition steps :: nat where
  "steps = 200"

text \<open>\<open>duration / steps\<close>: the quotient 17.5 is a double, no rounding takes place.\<close>

definition stepDuration :: real where
  "stepDuration = duration / real steps"

text \<open>
  The function passed to \<open>prevMetrics.map\<close>: the new state of the metric at position
  \<open>index\<close>, from the final values, the eased progress of the tick and the metric's
  previous state.
\<close>

definition updateMetric_in ::
  "Arithmetic \<Rightarrow> number list \<Rightarrow> real \<Rightarrow> Metric \<Rightarrow> nat \<Rightarrow> Metric" where
  "updateMetric_in ar finalValues easedProgress metric index =
     (let targetValue = js_index finalValues index in
      if index = 3 then
        (let rawValue = js_mul_in ar targetValue (Num easedProgress) in
         if js_lt rawValue (Num 999)
         then metric\<lparr>value_m := Math_floor rawValue, suffix_m := ''''\<rparr>
         else metric\<lparr>value_m := Num 1, suffix_m := ''K+''\<rparr>)
      else if js_le targetValue (Num 5) then
        (let rawValue = js_mul_in ar targetValue (Num easedProgress) in
         if js_lt rawValue (Num 0.5) then metric\<lparr>value_m := Num 0\<rparr>
         else if js_lt rawValue (Num 1.5) then metric\<lparr>value_m := Num 1\<rparr>
         else if js_lt rawValue (Num 2.5) then metric\<lparr>value_m := Num 2\<rparr>
         else metric\<lparr>value_m := Math_round rawValue\<rparr>)
      else metric\<lparr>value_m := Math_floor (js_mul_in ar targetValue (Num easedProgress))\<rparr>)"

abbreviation updateMetric :: "number list \<Rightarrow> real \<Rightarrow> Metric \<Rightarrow> nat \<Rightarrow> Metric" where
  "updateMetric \<equiv> updateMetric_in exact"

text \<open>\<open>prevMetrics.map((metric, index) => ...)\<close>: the positions count from \<open>offset\<close>.\<close>

fun mapIndexed :: "(Metric \<Rightarrow> nat \<Rightarrow> Metric) \<Rightarrow> nat \<Rightarrow> Metric list \<Rightarrow> Metric list" where
  "mapIndexed f offset [] = []"
| "mapIndexed f offset (metric # rest) = f metric offset # mapIndexed f (Suc offset) rest"

subsection \<open>The component\<close>

datatype error = ReferenceError

text \<open>
  What the component finds around it when an effect runs: whether the global
  \<open>IntersectionObserver\<close> exists, and whether \<open>sectionRef.current\<close> is set.
\<close>

record Env =
  intersectionObserverDefined :: bool
  sectionRefCurrent :: bool

text \<open>
  The state of one mounted component: the three \<open>useState\<close> cells, the \<open>finalValues\<close>
  ref, and what the effects have set up: the pending promise of the fetch, the observer,
  the interval timer with the \<open>currentStep\<close> variable of its closure, the value of
  \<open>hasAnimated\<close> the effects last ran with, the number of \<open>setInterval\<close> calls so far
  and the lines written by \<open>console.error\<close>.
\<close>

record Widget =
  metricsData :: "Metric list"
  loading :: bool
  hasAnimated :: bool
  finalValues :: "number list"
  fetchPending :: bool
  observing :: bool
  depHasAnimated :: bool
  intervalActive :: bool
  currentStep :: nat
  intervalsStarted :: nat
  consoleErrors :: "(string \<times> string) list"
  mounted :: bool

definition initialWidget :: Widget where
  "initialWidget =
     \<lparr>metricsData = [], loading = True, hasAnimated = False, finalValues = [],
      fetchPending = False, observing = False, depHasAnimated = False,
      intervalActive = False, currentStep = 0, intervalsStarted = 0,
      consoleErrors = [], mounted = True\<rparr>"

text \<open>First effect: the fetch is started; its promise settles later.\<close>

definition effectFetch :: "Widget \<Rightarrow> Widget" where
  "effectFetch s = s\<lparr>fetchPending := True\<rparr>"

text \<open>
  Second effect: unless the animation has been triggered, an observer is constructed
  (a reference to a global that does not exist throws) and the section is observed when
  the ref is set.
\<close>

definition effectObserve :: "Env \<Rightarrow> Widget \<Rightarrow> error + Widget" where
  "effectObserve env s =
     (if \<not> hasAnimated s then
        (if \<not> intersectionObserverDefined env then Inl ReferenceError
         else Inr (s\<lparr>observing := sectionRefCurrent env\<rparr>))
      else Inr s)"

text \<open>Its cleanup, returned only by a run that constructed an observer.\<close>

definition cleanupObserve :: "Widget \<Rightarrow> Widget" where
  "cleanupObserve s = (if \<not> depHasAnimated s then s\<lparr>observing := False\<rparr> else s)"

text \<open>Third effect: nothing before the trigger; then the interval timer is started.\<close>

definition effectAnimate :: "Widget \<Rightarrow> Widget" where
  "effectAnimate s =
     (if \<not> hasAnimated s then s
      else s\<lparr>currentStep := 0, intervalActive := True,
             intervalsStarted := Suc (intervalsStarted s)\<rparr>)"

text \<open>Its cleanup, returned only by a run that started the timer.\<close>

definition cleanupAnimate :: "Widget \<Rightarrow> Widget" where
  "cleanupAnimate s = (if depHasAnimated s then s\<lparr>intervalActive := False\<rparr> else s)"

text \<open>Mounting renders the initial state and runs the three effects in order.\<close>

definition mount :: "Env \<Rightarrow> error + Widget" where
  "mount env =
     (case effectObserve env (effectFetch initialWidget) of
        Inl e \<Rightarrow> Inl e
      | Inr s \<Rightarrow> Inr (effectAnimate s))"

text \<open>The callback of the interval timer.\<close>

definition intervalCallback_in :: "Arithmetic \<Rightarrow> Widget \<Rightarrow> Widget" where
  "intervalCallback_in ar s =
     (let currentStep' = Suc (currentStep s);
          progress = quot ar (real currentStep') (real steps);
          easedProgress = easeOutExpoSlow_in ar progress;
          s' = s\<lparr>currentStep := currentStep',
                 metricsData :=
                   mapIndexed (updateMetric_in ar (finalValues s) easedProgress) 0
                     (metricsData s)\<rparr>
      in if currentStep' \<ge> steps then s'\<lparr>intervalActive := False\<rparr> else s')"

abbreviation intervalCallback :: "Widget \<Rightarrow> Widget" where
  "intervalCallback \<equiv> intervalCallback_in exact"

text \<open>The callback of the observer: \<open>entries.forEach\<close>.\<close>

definition observerCallback :: "bool list \<Rightarrow> Widget \<Rightarrow> Widget" where
  "observerCallback entries s =
     foldl (\<lambda>s isIntersecting. if isIntersecting then s\<lparr>hasAnimated := True\<rparr> else s)
       s entries"

text \<open>The handlers of the promise. State setters of an unmounted component do nothing.\<close>

definition fetchResolved :: "MetricConfig list \<Rightarrow> Widget \<Rightarrow> Widget" where
  "fetchResolved metrics s =
     (let s1 = s\<lparr>finalValues := map value_c metrics, fetchPending := False\<rparr>
      in if mounted s then s1\<lparr>metricsData := map initialMetric metrics, loading := False\<rparr>
         else s1)"

definition fetchRejected :: "string \<Rightarrow> Widget \<Rightarrow> Widget" where
  "fetchRejected err s =
     (let s1 = s\<lparr>consoleErrors := consoleErrors s @ [(''Error loading metrics config:'', err)],
                 fetchPending := False\<rparr>
      in if mounted s then s1\<lparr>loading := False\<rparr> else s1)"

text \<open>
  The events of a mounted component. \<open>Commit\<close> is React running the effects whose
  dependency \<open>hasAnimated\<close> has changed since they last ran: first the cleanups of
  the previous run, then the bodies.
\<close>

datatype event =
    FetchResolved "MetricConfig list"
  | FetchRejected string
  | Intersection "bool list"
  | Commit
  | Tick
  | Unmount

text \<open>
  One event. \<open>None\<close>: the event cannot happen in this state (a settled promise does not
  settle again, a disconnected observer and a cleared timer do not call back).

  The observer is the one constructed while mounting, on the element that shows
  \<open>Loading metrics...\<close>; when loading ends that element is replaced by the section, and
  the second effect does not run again. The model does not follow the elements: it lets
  the observer report an intersection for as long as it is connected, also after the
  load. It has every run of the component, and runs the component does not have.
\<close>

fun step_in :: "Arithmetic \<Rightarrow> Env \<Rightarrow> Widget \<Rightarrow> event \<Rightarrow> (error + Widget) option" where
  "step_in ar env s (FetchResolved metrics) =
     (if fetchPending s then Some (Inr (fetchResolved metrics s)) else None)"
| "step_in ar env s (FetchRejected err) =
     (if fetchPending s then Some (Inr (fetchRejected err s)) else None)"
| "step_in ar env s (Intersection entries) =
     (if observing s then Some (Inr (observerCallback entries s)) else None)"
| "step_in ar env s Commit =
     (if mounted s \<and> depHasAnimated s \<noteq> hasAnimated s then
        (case effectObserve env (cleanupAnimate (cleanupObserve s)) of
           Inl e \<Rightarrow> Some (Inl e)
         | Inr s1 \<Rightarrow> Some (Inr ((effectAnimate s1)\<lparr>depHasAnimated := hasAnimated s\<rparr>)))
      else None)"
| "step_in ar env s Tick =
     (if intervalActive s then Some (Inr (intervalCallback_in ar s)) else None)"
| "step_in ar env s Unmount =
     (if mounted s then
        Some (Inr ((cleanupAnimate (cleanupObserve s))\<lparr>mounted := False\<rparr>))
      else None)"

abbreviation step :: "Env \<Rightarrow> Widget \<Rightarrow> event \<Rightarrow> (error + Widget) option" where
  "step \<equiv> step_in exact"

fun run_in :: "Arithmetic \<Rightarrow> Env \<Rightarrow> Widget \<Rightarrow> event list \<Rightarrow> (error + Widget) option" where
  "run_in ar env s [] = Some (Inr s)"
| "run_in ar env s (ev # evs) =
     (case step_in ar env s ev of
        None \<Rightarrow> None
      | Some (Inl e) \<Rightarrow> Some (Inl e)
      | Some (Inr s') \<Rightarrow> run_in ar env s' evs)"

abbreviation run :: "Env \<Rightarrow> Widget \<Rightarrow> event list \<Rightarrow> (error + Widget) option" where
  "run \<equiv> run_in exact"


subsection \<open>Observations on runs\<close>

text \<open>
  The number of steps of a run at which \<open>hasAnimated\<close> turns from false to true: the
  firings of the visibility trigger.
\<close>

fun firings :: "Env \<Rightarrow> Widget \<Rightarrow> event list \<Rightarrow> nat" where
  "firings env s [] = 0"
| "firings env s (ev # evs) =
     (case step env s ev of
        Some (Inr s') \<Rightarrow>
          (if \<not> hasAnimated s \<and> hasAnimated s' then 1 else 0) + firings env s' evs
      | _ \<Rightarrow> 0)"

text \<open>
  The snapping of a small target in the words of the specification: below 0.5 it is 0,
  below 1.5 it is 1, below 2.5 it is 2, otherwise the rounded value.
\<close>

definition snapped :: "real \<Rightarrow> int" where
  "snapped raw =
     (if raw < 0.5 then 0 else if raw < 1.5 then 1 else if raw < 2.5 then 2 else round raw)"

text \<open>A catalog entry without its optional \<open>displayAsK\<close> field.\<close>

definition withoutDisplayAsK :: "MetricConfig \<Rightarrow> MetricConfig" where
  "withoutDisplayAsK metric = metric\<lparr>displayAsK := None\<rparr>"

subsection \<open>Invariants of the component\<close>

text \<open>
  What holds in every state a mounted component reaches: the effects have run with
  \<open>hasAnimated\<close> true only after it became true, and exactly then the timer has been
  started, once, and the observer disconnected; a running timer belongs to a mounted
  component and has ticks left; nothing is loaded while the fetch is pending.
\<close>

definition inv :: "Widget \<Rightarrow> bool" where
  "inv s \<longleftrightarrow>
     (depHasAnimated s \<longrightarrow> hasAnimated s \<and> intervalsStarted s = 1 \<and> \<not> observing s) \<and>
     (\<not> depHasAnimated s \<longrightarrow>
        currentStep s = 0 \<and> \<not> intervalActive s \<and> intervalsStarted s = 0) \<and>
     (intervalActive s \<longrightarrow> mounted s \<and> currentStep s < steps) \<and>
     currentStep s \<le> steps \<and>
     (observing s \<longrightarrow> mounted s) \<and>
     (fetchPending s \<longrightarrow> metricsData s = [] \<and> finalValues s = [])"

text \<open>
  The catalog \<open>cfgs\<close> has been loaded: the final values are its values and, in a
  mounted component, there is one metric per entry, with the entry's suffix everywhere
  but at position 3.
\<close>

definition loaded :: "MetricConfig list \<Rightarrow> Widget \<Rightarrow> bool" where
  "loaded cfgs s \<longleftrightarrow>
     \<not> fetchPending s \<and> finalValues s = map value_c cfgs \<and>
     (mounted s \<longrightarrow>
        length (metricsData s) = length cfgs \<and>
        (\<forall>i < length cfgs. i \<noteq> 3 \<longrightarrow> suffix_m (metricsData s ! i) = suffix_c (cfgs ! i)))"

subsection \<open>A concrete page view\<close>

definition exampleEnv :: Env where
  "exampleEnv = \<lparr>intersectionObserverDefined = True, sectionRefCurrent = True\<rparr>"

definition exampleCatalog :: "MetricConfig list" where
  "exampleCatalog =
     [\<lparr>id_c = ''a'', label_c = ''Requests'', value_c = Num 42, suffix_c = ''ms'',
       icon_c = ''Clock'', color_c = ''blue'', displayAsK = None\<rparr>,
      \<lparr>id_c = ''b'', label_c = ''Years'', value_c = Num 3, suffix_c = ''+'',
       icon_c = ''Zap'', color_c = ''green'', displayAsK = None\<rparr>,
      \<lparr>id_c = ''c'', label_c = ''Uptime'', value_c = Num 99, suffix_c = ''%'',
       icon_c = ''Activity'', color_c = ''red'', displayAsK = None\<rparr>,
      \<lparr>id_c = ''d'', label_c = ''Users'', value_c = Num 1500, suffix_c = ''+'',
       icon_c = ''TrendingUp'', color_c = ''purple'', displayAsK = Some True\<rparr>]"

text \<open>The component just mounted in \<open>exampleEnv\<close>.\<close>

definition exampleMounted :: Widget where
  "exampleMounted = initialWidget\<lparr>fetchPending := True, observing := True\<rparr>"

text \<open>
  The section is visible at once, the timer starts, and the catalog arrives before the
  first tick: the events, and the state they lead to.
\<close>

definition exampleEvents :: "event list" where
  "exampleEvents = [Intersection [True], Commit, FetchResolved exampleCatalog]"

definition exampleStarted :: Widget where
  "exampleStarted =
     \<lparr>metricsData = map initialMetric exampleCatalog, loading = False, hasAnimated = True,
      finalValues = map value_c exampleCatalog, fetchPending = False, observing = False,
      depHasAnimated = True, intervalActive = True, currentStep = 0, intervalsStarted = 1,
      consoleErrors = [], mounted = True\<rparr>"

text \<open>The state after 199 of the 200 ticks that follow, and the state after all of them.\<close>

definition exampleBeforeLast :: Widget where
  "exampleBeforeLast =
     exampleStarted
       \<lparr>currentStep := 199,
        metricsData :=
          mapIndexed (updateMetric (finalValues exampleStarted) (easeOutExpoSlow (199 / 200)))
            0 (metricsData exampleStarted)\<rparr>"

definition exampleFinal :: Widget where
  "exampleFinal =
     exampleStarted
       \<lparr>currentStep := 200, intervalActive := False,
        metricsData :=
          [\<lparr>id_m = ''a'', label_m = ''Requests'', value_m = Num 42, suffix_m = ''ms'',
            icon_m = Clock, color_m = ''blue''\<rparr>,
           \<lparr>id_m = ''b'', label_m = ''Years'', value_m = Num 3, suffix_m = ''+'',
            icon_m = Zap, color_m = ''green''\<rparr>,
           \<lparr>id_m = ''c'', label_m = ''Uptime'', value_m = Num 99, suffix_m = ''%'',
            icon_m = Activity, color_m = ''red''\<rparr>,
           \<lparr>id_m = ''d'', label_m = ''Users'', value_m = Num 1, suffix_m = ''K+'',
            icon_m = TrendingUp, color_m = ''purple''\<rparr>]\<rparr>"

section \<open>Auxiliary facts\<close>

subsection \<open>Exact arithmetic\<close>

lemma exact_ops [simp]:
  "mul exact = (*)" "sub exact = (-)" "quot exact = (/)" "pow exact = (powr)" "lit exact x = x"
  by (simp_all add: exact_def)

lemma easeOutExpoSlow_exact:
  "easeOutExpoSlow t = (if t = 1 then 1 else 1 - 2 powr (- 10 * t) * 0.3)"
  by (simp add: easeOutExpoSlow_in_def)

lemma updateMetric_exact:
  "updateMetric fv e metric index =
     (let targetValue = js_index fv index in
      if index = 3 then
        (let rawValue = js_mul targetValue (Num e) in
         if js_lt rawValue (Num 999)
         then metric\<lparr>value_m := Math_floor rawValue, suffix_m := ''''\<rparr>
         else metric\<lparr>value_m := Num 1, suffix_m := ''K+''\<rparr>)
      else if js_le targetValue (Num 5) then
        (let rawValue = js_mul targetValue (Num e) in
         if js_lt rawValue (Num 0.5) then metric\<lparr>value_m := Num 0\<rparr>
         else if js_lt rawValue (Num 1.5) then metric\<lparr>value_m := Num 1\<rparr>
         else if js_lt rawValue (Num 2.5) then metric\<lparr>value_m := Num 2\<rparr>
         else metric\<lparr>value_m := Math_round rawValue\<rparr>)
      else metric\<lparr>value_m := Math_floor (js_mul targetValue (Num e))\<rparr>)"
  by (rule updateMetric_in_def)

lemma intervalCallback_exact:
  "intervalCallback s =
     (let currentStep' = Suc (currentStep s);
          progress = real currentStep' / real steps;
          easedProgress = easeOutExpoSlow progress;
          s' = s\<lparr>currentStep := currentStep',
                 metricsData :=
                   mapIndexed (updateMetric (finalValues s) easedProgress) 0 (metricsData s)\<rparr>
      in if currentStep' \<ge> steps then s'\<lparr>intervalActive := False\<rparr> else s')"
  by (simp add: intervalCallback_in_def)

subsection \<open>The easing function\<close>



lemma ease_one: "easeOutExpoSlow 1 = 1"
  by (simp add: easeOutExpoSlow_exact)




subsection \<open>Callbacks and invariants\<close>

lemma observerCallback_fields:
  "observerCallback entries s = s\<lparr>hasAnimated := hasAnimated s \<or> (\<exists>e \<in> set entries. e)\<rparr>"
  unfolding observerCallback_def
proof (induction entries arbitrary: s)
  case Nil
  then show ?case by simp
next
  case (Cons e es)
  then show ?case by (cases e) (simp_all add: disj_commute)
qed

lemma mapIndexed_length [simp]: "length (mapIndexed f k xs) = length xs"
  by (induction xs arbitrary: k) simp_all

lemma mapIndexed_nth: "i < length xs \<Longrightarrow> mapIndexed f k xs ! i = f (xs ! i) (k + i)"
proof (induction xs arbitrary: k i)
  case Nil
  then show ?case by simp
next
  case (Cons x xs)
  then show ?case by (cases i) simp_all
qed

lemma mount_cases:
  "mount env = (if intersectionObserverDefined env
     then Inr (initialWidget\<lparr>fetchPending := True, observing := sectionRefCurrent env\<rparr>)
     else Inl ReferenceError)"
  by (simp add: mount_def effectObserve_def effectFetch_def effectAnimate_def initialWidget_def)

lemma mount_inv: "mount env = Inr s0 \<Longrightarrow> inv s0 \<and> fetchPending s0 \<and> \<not> hasAnimated s0"
  by (auto simp: mount_cases inv_def initialWidget_def split: if_splits)

lemma step_inv: "inv s \<Longrightarrow> step env s ev = Some r \<Longrightarrow> \<exists>s'. r = Inr s' \<and> inv s'"
proof (cases ev)
  case (FetchResolved x1)
  then show "inv s \<Longrightarrow> step env s ev = Some r \<Longrightarrow> \<exists>s'. r = Inr s' \<and> inv s'"
    by (auto simp: inv_def fetchResolved_def Let_def split: if_splits)
next
  case (FetchRejected x2)
  then show "inv s \<Longrightarrow> step env s ev = Some r \<Longrightarrow> \<exists>s'. r = Inr s' \<and> inv s'"
    by (auto simp: inv_def fetchRejected_def Let_def split: if_splits)
next
  case (Intersection x3)
  then show "inv s \<Longrightarrow> step env s ev = Some r \<Longrightarrow> \<exists>s'. r = Inr s' \<and> inv s'"
    by (auto simp: inv_def observerCallback_fields split: if_splits)
next
  case Commit
  then show "inv s \<Longrightarrow> step env s ev = Some r \<Longrightarrow> \<exists>s'. r = Inr s' \<and> inv s'"
    by (auto simp: inv_def effectObserve_def cleanupObserve_def effectAnimate_def
        cleanupAnimate_def steps_def split: if_splits)
next
  case Tick
  then show "inv s \<Longrightarrow> step env s ev = Some r \<Longrightarrow> \<exists>s'. r = Inr s' \<and> inv s'"
    by (auto simp: inv_def intervalCallback_exact Let_def split: if_splits)
next
  case Unmount
  then show "inv s \<Longrightarrow> step env s ev = Some r \<Longrightarrow> \<exists>s'. r = Inr s' \<and> inv s'"
    by (auto simp: inv_def cleanupObserve_def cleanupAnimate_def split: if_splits)
qed

lemma run_inv: "inv s \<Longrightarrow> run env s evs = Some r \<Longrightarrow> \<exists>s'. r = Inr s' \<and> inv s'"
proof (induction evs arbitrary: s)
  case Nil
  then show ?case by auto
next
  case (Cons ev evs)
  from Cons.prems(2) obtain r1 where r1: "step env s ev = Some r1"
    by (auto split: option.splits)
  with Cons.prems(1) obtain s1 where s1: "r1 = Inr s1" "inv s1"
    using step_inv by blast
  with r1 Cons.prems(2) have "run env s1 evs = Some r" by simp
  with s1 Cons.IH show ?case by blast
qed

lemma run_append:
  "run env s (xs @ ys) =
     (case run env s xs of Some (Inr s') \<Rightarrow> run env s' ys | r \<Rightarrow> r)"
  by (induction xs arbitrary: s) (auto split: option.splits sum.splits)


lemma updateMetric_absorb:
  "updateMetric fv e2 (updateMetric fv e1 m i) i = updateMetric fv e2 m i"
  by (simp add: updateMetric_exact Let_def)

lemma updateMetric_suffix: "i \<noteq> 3 \<Longrightarrow> suffix_m (updateMetric fv e m i) = suffix_m m"
  by (simp add: updateMetric_exact Let_def)

lemma mapIndexed_absorb:
  "mapIndexed (updateMetric fv e2) k (mapIndexed (updateMetric fv e1) k ms) =
     mapIndexed (updateMetric fv e2) k ms"
  by (induction ms arbitrary: k) (simp_all add: updateMetric_absorb)

lemma intervalCallback_suffix:
  "i < length (metricsData s) \<Longrightarrow> i \<noteq> 3 \<Longrightarrow>
     suffix_m (metricsData (intervalCallback s) ! i) = suffix_m (metricsData s ! i)"
  by (simp add: intervalCallback_exact Let_def mapIndexed_nth updateMetric_suffix)

lemma step_loaded:
  "inv s \<Longrightarrow> loaded cfgs s \<Longrightarrow> step env s ev = Some (Inr s') \<Longrightarrow> loaded cfgs s'"
proof (cases ev)
  case (FetchResolved x1)
  then show "inv s \<Longrightarrow> loaded cfgs s \<Longrightarrow> step env s ev = Some (Inr s') \<Longrightarrow> loaded cfgs s'"
    by (auto simp: loaded_def split: if_splits)
next
  case (FetchRejected x2)
  then show "inv s \<Longrightarrow> loaded cfgs s \<Longrightarrow> step env s ev = Some (Inr s') \<Longrightarrow> loaded cfgs s'"
    by (auto simp: loaded_def split: if_splits)
next
  case (Intersection x3)
  then show "inv s \<Longrightarrow> loaded cfgs s \<Longrightarrow> step env s ev = Some (Inr s') \<Longrightarrow> loaded cfgs s'"
    by (auto simp: loaded_def observerCallback_fields split: if_splits)
next
  case Commit
  then show "inv s \<Longrightarrow> loaded cfgs s \<Longrightarrow> step env s ev = Some (Inr s') \<Longrightarrow> loaded cfgs s'"
    by (auto simp: loaded_def effectObserve_def cleanupObserve_def effectAnimate_def
        cleanupAnimate_def split: if_splits)
next
  case Tick
  assume l: "loaded cfgs s" and st: "step env s ev = Some (Inr s')"
  from st Tick have s': "s' = intervalCallback s"
    by (simp split: if_splits)
  have f: "fetchPending s' = fetchPending s" "finalValues s' = finalValues s"
    "mounted s' = mounted s" "length (metricsData s') = length (metricsData s)"
    unfolding s' by (simp_all add: intervalCallback_exact Let_def)
  show "loaded cfgs s'"
    unfolding loaded_def f
    using l by (simp add: loaded_def s' intervalCallback_suffix)
next
  case Unmount
  then show "inv s \<Longrightarrow> loaded cfgs s \<Longrightarrow> step env s ev = Some (Inr s') \<Longrightarrow> loaded cfgs s'"
    by (auto simp: loaded_def cleanupObserve_def cleanupAnimate_def split: if_splits)
qed

lemma fetchResolved_loaded:
  "step env s (FetchResolved cfgs) = Some (Inr s') \<Longrightarrow> loaded cfgs s'"
  by (auto simp: loaded_def fetchResolved_def Let_def initialMetric_def split: if_splits)

lemma run_loaded_keep:
  "inv s \<Longrightarrow> loaded cfgs s \<Longrightarrow> run env s evs = Some (Inr s') \<Longrightarrow> loaded cfgs s'"
proof (induction evs arbitrary: s)
  case Nil
  then show ?case by auto
next
  case (Cons ev evs)
  from Cons.prems(3) obtain r1 where r1: "step env s ev = Some r1"
    by (auto split: option.splits)
  with Cons.prems(1) obtain s1 where s1: "r1 = Inr s1" "inv s1"
    using step_inv by blast
  from r1 s1 Cons.prems(3) have rest: "run env s1 evs = Some (Inr s')" by simp
  from r1 s1 have "step env s ev = Some (Inr s1)" by simp
  with Cons.prems(1,2) have "loaded cfgs s1" by (rule step_loaded)
  with s1 rest Cons.IH show ?case by blast
qed

lemma run_loaded:
  "inv s \<Longrightarrow> run env s evs = Some (Inr s') \<Longrightarrow> FetchResolved cfgs \<in> set evs \<Longrightarrow>
     loaded cfgs s'"
proof (induction evs arbitrary: s)
  case Nil
  then show ?case by simp
next
  case (Cons ev evs)
  from Cons.prems(2) obtain r1 where r1: "step env s ev = Some r1"
    by (auto split: option.splits)
  with Cons.prems(1) obtain s1 where s1: "r1 = Inr s1" "inv s1"
    using step_inv by blast
  with r1 Cons.prems(2) have rest: "run env s1 evs = Some (Inr s')" by simp
  show ?case
  proof (cases "ev = FetchResolved cfgs")
    case True
    with r1 s1 have "loaded cfgs s1" using fetchResolved_loaded by blast
    with s1 rest show ?thesis using run_loaded_keep by blast
  next
    case False
    with Cons.prems(3) have "FetchResolved cfgs \<in> set evs" by simp
    with s1 rest Cons.IH show ?thesis by blast
  qed
qed


lemma intervalCallback_eq:
  "intervalActive s \<Longrightarrow>
     intervalCallback s =
       s\<lparr>currentStep := Suc (currentStep s),
         metricsData :=
           mapIndexed (updateMetric (finalValues s)
             (easeOutExpoSlow (real (Suc (currentStep s)) / real steps))) 0 (metricsData s),
         intervalActive := Suc (currentStep s) < steps\<rparr>"
  by (cases "steps \<le> Suc (currentStep s)") (simp_all add: intervalCallback_exact Let_def)

lemma run_ticks:
  "intervalActive s \<Longrightarrow> currentStep s + Suc n \<le> steps \<Longrightarrow>
     run env s (replicate (Suc n) Tick) =
       Some (Inr (s\<lparr>currentStep := currentStep s + Suc n,
                    metricsData :=
                      mapIndexed (updateMetric (finalValues s)
                        (easeOutExpoSlow (real (currentStep s + Suc n) / real steps)))
                        0 (metricsData s),
                    intervalActive := currentStep s + Suc n < steps\<rparr>))"
proof (induction n arbitrary: s)
  case 0
  then show ?case by (simp add: intervalCallback_eq)
next
  case (Suc n)
  let ?s1 = "intervalCallback s"
  from Suc.prems have a: "intervalActive ?s1" "currentStep ?s1 = Suc (currentStep s)"
    "finalValues ?s1 = finalValues s"
    by (simp_all add: intervalCallback_eq)
  with Suc.prems have b: "currentStep ?s1 + Suc n \<le> steps" by simp
  have "run env s (replicate (Suc (Suc n)) Tick) = run env ?s1 (replicate (Suc n) Tick)"
    using Suc.prems(1) by simp
  also note Suc.IH [OF a(1) b]
  finally show ?case
    using Suc.prems(1) by (simp add: a(2,3) intervalCallback_eq mapIndexed_absorb)
qed

lemma run_ticks_none:
  "\<not> intervalActive s \<Longrightarrow> run env s (replicate (Suc n) Tick) = None"
  by simp

lemma updateMetric_largeCount:
  "js_index fv 3 = Num t \<Longrightarrow>
     updateMetric fv e m 3 =
       (if t * e < 999 then m\<lparr>value_m := Num (of_int \<lfloor>t * e\<rfloor>), suffix_m := ''''\<rparr>
        else m\<lparr>value_m := Num 1, suffix_m := ''K+''\<rparr>)"
  by (simp add: updateMetric_exact Let_def)

lemma step_Tick_nth:
  "step env s Tick = Some (Inr s') \<Longrightarrow> i < length (metricsData s) \<Longrightarrow>
     currentStep s' = Suc (currentStep s) \<and>
     metricsData s' ! i =
       updateMetric (finalValues s) (easeOutExpoSlow (real (currentStep s') / real steps))
         (metricsData s ! i) i"
  by (auto simp: intervalCallback_eq mapIndexed_nth split: if_splits)

lemma updateMetric_small:
  "index \<noteq> 3 \<Longrightarrow> js_index fv index = Num t \<Longrightarrow> t \<le> 5 \<Longrightarrow>
     updateMetric fv e m index = m\<lparr>value_m := Num (of_int (snapped (t * e)))\<rparr>"
  by (simp add: updateMetric_exact Let_def snapped_def round_def)


lemma run_snoc:
  "run env s (evs @ [ev]) = Some (Inr s') \<Longrightarrow>
     \<exists>s1. run env s evs = Some (Inr s1) \<and> step env s1 ev = Some (Inr s')"
  by (auto simp: run_append split: option.splits sum.splits)

lemma snapped_nat: "n \<le> 5 \<Longrightarrow> snapped (real n) = int n"
proof -
  assume "n \<le> 5"
  then consider "n = 0" | "n = 1" | "n = 2" | "n = 3" | "n = 4" | "n = 5"
    by linarith
  then show ?thesis
    by cases (simp_all add: snapped_def round_def)
qed

lemma updateMetric_final_nat:
  assumes "i \<noteq> 3" and "js_index fv i = Num (of_nat n)"
  shows "updateMetric fv 1 m i = m\<lparr>value_m := Num (of_nat n)\<rparr>"
proof (cases "n \<le> 5")
  case True
  then have "real n \<le> 5" by simp
  from updateMetric_small [OF assms(1,2) this, of 1 m] True show ?thesis
    by (simp add: snapped_nat)
next
  case False
  with assms show ?thesis
    by (simp add: updateMetric_exact Let_def)
qed

lemma final_tick:
  assumes "inv s" and "loaded cfgs s" and "step env s Tick = Some (Inr s')"
    and "currentStep s' = steps" and "i < length cfgs"
  shows "i < length (metricsData s') \<and>
     metricsData s' ! i = updateMetric (map value_c cfgs) 1 (metricsData s ! i) i \<and>
     (i \<noteq> 3 \<longrightarrow> suffix_m (metricsData s ! i) = suffix_c (cfgs ! i))"
proof -
  from assms(3) have act: "intervalActive s" by (simp split: if_splits)
  with assms(1) have "mounted s" by (simp add: inv_def)
  with assms(2) have len: "length (metricsData s) = length cfgs"
    and suf: "\<forall>i < length cfgs. i \<noteq> 3 \<longrightarrow> suffix_m (metricsData s ! i) = suffix_c (cfgs ! i)"
    and fv: "finalValues s = map value_c cfgs"
    by (simp_all add: loaded_def)
  from assms(5) len have i: "i < length (metricsData s)" by simp
  from assms(4) have e: "easeOutExpoSlow (real (currentStep s') / real steps) = 1"
    by (simp add: steps_def ease_one)
  from step_Tick_nth [OF assms(3) i] have
    "metricsData s' ! i = updateMetric (map value_c cfgs) 1 (metricsData s ! i) i"
    by (simp add: e fv)
  moreover from assms(3) act i have "i < length (metricsData s')"
    by (auto simp: intervalCallback_eq)
  ultimately show ?thesis using suf assms(5) by simp
qed

lemma example_mount: "mount exampleEnv = Inr exampleMounted"
  by (simp add: mount_cases exampleEnv_def exampleMounted_def)

lemma example_started: "run exampleEnv exampleMounted exampleEvents = Some (Inr exampleStarted)"
  by (simp add: exampleEvents_def exampleMounted_def exampleStarted_def initialWidget_def
      fetchResolved_def observerCallback_def effectObserve_def cleanupObserve_def
      effectAnimate_def cleanupAnimate_def Let_def)

lemma example_ticks:
  "run exampleEnv exampleStarted (replicate 200 Tick) = Some (Inr exampleFinal)"
proof -
  have a: "intervalActive exampleStarted" by (simp add: exampleStarted_def)
  have b: "currentStep exampleStarted + Suc 199 \<le> steps"
    by (simp add: exampleStarted_def steps_def)
  have c: "replicate 200 Tick = replicate (Suc 199) Tick" by simp
  have d: "easeOutExpoSlow (real (currentStep exampleStarted + Suc 199) / real steps) = 1"
    by (simp add: exampleStarted_def steps_def ease_one)
  have e: "mapIndexed (updateMetric (finalValues exampleStarted) 1) 0 (metricsData exampleStarted)
      = metricsData exampleFinal"
    by (simp add: exampleStarted_def exampleFinal_def exampleCatalog_def initialMetric_def
        resolveIcon_def iconMap_def updateMetric_exact js_index_def Let_def)
  show ?thesis
    unfolding c run_ticks [OF a b, of exampleEnv] d e
    by (simp add: exampleFinal_def exampleStarted_def steps_def)
qed

lemma example_run:
  "run exampleEnv exampleMounted (exampleEvents @ replicate 200 Tick) = Some (Inr exampleFinal)"
  by (simp add: run_append example_started example_ticks)

lemma example_before_last:
  "run exampleEnv exampleMounted (exampleEvents @ replicate 199 Tick) =
     Some (Inr exampleBeforeLast)"
proof -
  have a: "intervalActive exampleStarted" by (simp add: exampleStarted_def)
  have b: "currentStep exampleStarted + Suc 198 \<le> steps"
    by (simp add: exampleStarted_def steps_def)
  have "run exampleEnv exampleStarted (replicate (Suc 198) Tick) = Some (Inr exampleBeforeLast)"
    unfolding run_ticks [OF a b, of exampleEnv]
    by (simp add: exampleBeforeLast_def exampleStarted_def steps_def)
  then have "run exampleEnv exampleStarted (replicate 199 Tick) = Some (Inr exampleBeforeLast)"
    by simp
  then show ?thesis
    by (simp only: run_append example_started option.case sum.case)
qed

lemma example_last_tick: "step exampleEnv exampleBeforeLast Tick = Some (Inr exampleFinal)"
proof -
  have a: "intervalActive exampleBeforeLast"
    by (simp add: exampleBeforeLast_def exampleStarted_def)
  have b: "easeOutExpoSlow (real (Suc (currentStep exampleBeforeLast)) / real steps) = 1"
    by (simp add: exampleBeforeLast_def steps_def ease_one)
  have c: "mapIndexed (updateMetric (finalValues exampleStarted) 1) 0 (metricsData exampleStarted)
      = metricsData exampleFinal"
    by (simp add: exampleStarted_def exampleFinal_def exampleCatalog_def initialMetric_def
        resolveIcon_def iconMap_def updateMetric_exact js_index_def Let_def)
  have "intervalCallback exampleBeforeLast = exampleFinal"
    unfolding intervalCallback_eq [OF a] b
    by (simp add: exampleBeforeLast_def mapIndexed_absorb c)
      (simp add: exampleFinal_def exampleStarted_def steps_def)
  with a show ?thesis by simp
qed

text \<open>
  A catalog that arrives only after the 200th tick is displayed with its initial values:
  no tick is left to count them up.
\<close>

lemma late_catalog:
  "run exampleEnv exampleMounted
     ([Intersection [True], Commit] @ replicate 200 Tick @ [FetchResolved exampleCatalog]) =
     Some (Inr (exampleFinal\<lparr>metricsData := map initialMetric exampleCatalog\<rparr>))"
proof -
  let ?s = "exampleMounted\<lparr>hasAnimated := True, observing := False, depHasAnimated := True,
      intervalActive := True, currentStep := 0, intervalsStarted := 1\<rparr>"
  have a: "run exampleEnv exampleMounted [Intersection [True], Commit] = Some (Inr ?s)"
    by (simp add: exampleMounted_def initialWidget_def observerCallback_def effectObserve_def
        cleanupObserve_def effectAnimate_def cleanupAnimate_def)
  have b: "intervalActive ?s" "currentStep ?s + Suc 199 \<le> steps"
    by (simp_all add: steps_def)
  have "run exampleEnv ?s (replicate (Suc 199) Tick) =
      Some (Inr (?s\<lparr>currentStep := 200, metricsData := [], intervalActive := False\<rparr>))"
    unfolding run_ticks [OF b, of exampleEnv]
    by (simp add: exampleMounted_def initialWidget_def steps_def)
  then have c: "run exampleEnv ?s (replicate 200 Tick) =
      Some (Inr (?s\<lparr>currentStep := 200, metricsData := [], intervalActive := False\<rparr>))"
    by simp
  have e: "run exampleEnv (?s\<lparr>currentStep := 200, metricsData := [], intervalActive := False\<rparr>)
      [FetchResolved exampleCatalog] =
      Some (Inr (exampleFinal\<lparr>metricsData := map initialMetric exampleCatalog\<rparr>))"
    by (simp add: fetchResolved_def Let_def exampleFinal_def exampleStarted_def
        exampleMounted_def initialWidget_def)
  show ?thesis
    by (simp only: run_append a c e option.case sum.case)
qed

lemma step_hasAnimated:
  "hasAnimated s \<Longrightarrow> step env s ev = Some (Inr s') \<Longrightarrow> hasAnimated s'"
  by (cases ev)
    (auto simp: fetchResolved_def fetchRejected_def observerCallback_fields effectObserve_def
      cleanupObserve_def effectAnimate_def cleanupAnimate_def intervalCallback_exact Let_def
      split: if_splits)

lemma run_hasAnimated:
  "hasAnimated s \<Longrightarrow> run env s evs = Some (Inr s') \<Longrightarrow> hasAnimated s'"
proof (induction evs arbitrary: s)
  case Nil
  then show ?case by auto
next
  case (Cons ev evs)
  from Cons.prems(2) obtain s1 where s1: "step env s ev = Some (Inr s1)"
    and rest: "run env s1 evs = Some (Inr s')"
    by (auto split: option.splits sum.splits)
  from Cons.prems(1) s1 have "hasAnimated s1" by (rule step_hasAnimated)
  then show ?case using rest by (rule Cons.IH)
qed

lemma firings_bound: "firings env s evs \<le> (if hasAnimated s then 0 else 1)"
proof (induction evs arbitrary: s)
  case Nil
  then show ?case by simp
next
  case (Cons ev evs)
  show ?case
  proof (cases "step env s ev")
    case None
    then show ?thesis by simp
  next
    case (Some r)
    show ?thesis
    proof (cases r)
      case (Inl e)
      with Some show ?thesis by simp
    next
      case (Inr s1)
      with Some have st: "step env s ev = Some (Inr s1)" by simp
      have ih: "firings env s1 evs \<le> (if hasAnimated s1 then 0 else 1)" by (rule Cons.IH)
      show ?thesis
      proof (cases "hasAnimated s")
        case True
        from True st have "hasAnimated s1" by (rule step_hasAnimated)
        with ih True st show ?thesis by simp
      next
        case False
        with ih st show ?thesis by (cases "hasAnimated s1") simp_all
      qed
    qed
  qed
qed

lemma step_currentStep:
  "inv s \<Longrightarrow> step env s ev = Some (Inr s') \<Longrightarrow> currentStep s' \<noteq> currentStep s \<Longrightarrow> hasAnimated s"
  by (cases ev)
    (auto simp: inv_def fetchResolved_def fetchRejected_def observerCallback_fields
      effectObserve_def cleanupObserve_def effectAnimate_def cleanupAnimate_def Let_def
      split: if_splits)

lemma commit_starts:
  assumes "hasAnimated s" and "step env s Commit = Some (Inr s1)"
  shows "intervalActive s1 \<and> currentStep s1 = 0 \<and> hasAnimated s1 \<and>
    intervalsStarted s1 = Suc (intervalsStarted s) \<and> \<not> observing s1"
  using assms
  by (auto simp: effectObserve_def cleanupObserve_def effectAnimate_def cleanupAnimate_def
      split: if_splits)

lemma stepDuration_value: "stepDuration = 17.5"
  by (simp add: stepDuration_def duration_def steps_def)

lemma mapIndexed_Nil_iff [simp]: "mapIndexed f k xs = [] \<longleftrightarrow> xs = []"
  by (cases xs) simp_all

lemma step_empty:
  "\<not> fetchPending s \<Longrightarrow> metricsData s = [] \<Longrightarrow> step env s ev = Some (Inr s') \<Longrightarrow>
     \<not> fetchPending s' \<and> metricsData s' = [] \<and> loading s' = loading s"
  by (cases ev)
    (auto simp: observerCallback_fields effectObserve_def cleanupObserve_def
      effectAnimate_def cleanupAnimate_def intervalCallback_exact Let_def split: if_splits)

lemma run_empty:
  "\<not> fetchPending s \<Longrightarrow> metricsData s = [] \<Longrightarrow> run env s evs = Some (Inr s') \<Longrightarrow>
     metricsData s' = [] \<and> loading s' = loading s"
proof (induction evs arbitrary: s)
  case Nil
  then show ?case by auto
next
  case (Cons ev evs)
  from Cons.prems(3) obtain s1 where s1: "step env s ev = Some (Inr s1)"
    and rest: "run env s1 evs = Some (Inr s')"
    by (auto split: option.splits sum.splits)
  from step_empty [OF Cons.prems(1,2) s1] have a: "\<not> fetchPending s1" "metricsData s1 = []"
    "loading s1 = loading s"
    by simp_all
  from Cons.IH [OF a(1,2) rest] a(3) show ?case by simp
qed

lemma map_withoutDisplayAsK:
  assumes "map withoutDisplayAsK cfgs1 = map withoutDisplayAsK cfgs2"
  shows "map value_c cfgs1 = map value_c cfgs2 \<and> map initialMetric cfgs1 = map initialMetric cfgs2"
proof -
  have v: "value_c c = value_c (withoutDisplayAsK c)" for c
    by (simp add: withoutDisplayAsK_def)
  have m: "initialMetric c = initialMetric (withoutDisplayAsK c)" for c
    by (simp add: withoutDisplayAsK_def initialMetric_def)
  have "map value_c cfgs = map value_c (map withoutDisplayAsK cfgs)" for cfgs
    using v by (simp add: comp_def)
  moreover have "map initialMetric cfgs = map initialMetric (map withoutDisplayAsK cfgs)" for cfgs
    using m by (simp add: comp_def)
  ultimately show ?thesis using assms by metis
qed

subsection \<open>Any arithmetic\<close>

lemma updateMetric_in_largeCount:
  "js_index fv 3 = Num t \<Longrightarrow>
     updateMetric_in ar fv e m 3 =
       (if mul ar t e < 999 then m\<lparr>value_m := Num (of_int \<lfloor>mul ar t e\<rfloor>), suffix_m := ''''\<rparr>
        else m\<lparr>value_m := Num 1, suffix_m := ''K+''\<rparr>)"
  by (simp add: updateMetric_in_def Let_def)

lemma updateMetric_in_small:
  "index \<noteq> 3 \<Longrightarrow> js_index fv index = Num t \<Longrightarrow> t \<le> 5 \<Longrightarrow>
     updateMetric_in ar fv e m index = m\<lparr>value_m := Num (of_int (snapped (mul ar t e)))\<rparr>"
  by (simp add: updateMetric_in_def Let_def snapped_def round_def)

lemma step_in_Tick_nth:
  "step_in ar env s Tick = Some (Inr s') \<Longrightarrow> i < length (metricsData s) \<Longrightarrow>
     currentStep s' = Suc (currentStep s) \<and>
     metricsData s' ! i =
       updateMetric_in ar (finalValues s)
         (easeOutExpoSlow_in ar (quot ar (real (currentStep s')) (real steps)))
         (metricsData s ! i) i"
  by (cases "steps \<le> Suc (currentStep s)")
    (auto simp: intervalCallback_in_def Let_def mapIndexed_nth split: if_splits)

lemma easeOutExpoSlow_in_one: "easeOutExpoSlow_in ar 1 = 1"
  by (simp add: easeOutExpoSlow_in_def)

lemma tick_progress:
  assumes "step_in ar env s Tick = Some (Inr s')" and "currentStep s = n"
    and "i < length (metricsData s)"
  shows "metricsData s' ! i =
       updateMetric_in ar (finalValues s)
         (easeOutExpoSlow_in ar (quot ar (real (Suc n)) (real steps))) (metricsData s ! i) i"
  using step_in_Tick_nth [OF assms(1,3)] assms(2) by simp

subsection \<open>Rounding at two ticks\<close>

text \<open>
  \<open>binary64\<close> takes a number to the multiple of its unit in the last place that is
  less than half a unit away; this evaluates the rounded operations on numerals.
\<close>

lemma rounded_ops [simp]:
  "mul rounded a b = binary64 (a * b)" "sub rounded a b = binary64 (a - b)"
  "quot rounded a b = binary64 (a / b)" "pow rounded a b = binary64 (a powr b)"
  "lit rounded x = binary64 x"
  by (simp_all add: rounded_def)

lemma roundTiesToEven_near:
  assumes "\<bar>y - of_int n\<bar> < 1 / 2"
  shows "roundTiesToEven y = n"
proof -
  from assms have lo: "of_int n - 1 / 2 < y" and hi: "y < of_int n + 1 / 2"
    by arith+
  show ?thesis
  proof (cases "of_int n \<le> y")
    case True
    from hi have "y < of_int n + 1" by linarith
    with True have f: "\<lfloor>y\<rfloor> = n" by (rule floor_unique)
    from hi have "y - of_int n < 1 / 2" by linarith
    with f show ?thesis by (simp add: roundTiesToEven_def)
  next
    case False
    from lo have a: "of_int (n - 1) \<le> y" by simp
    from False have b: "y < of_int (n - 1) + 1" by simp
    from a b have f: "\<lfloor>y\<rfloor> = n - 1" by (rule floor_unique)
    from lo have c: "1 / 2 < y - of_int (n - 1)" by simp
    then have d: "\<not> y - of_int (n - 1) < 1 / 2" by linarith
    show ?thesis
      unfolding roundTiesToEven_def Let_def f using c d by simp
  qed
qed

lemma binary64_near:
  assumes "2 powr of_int k \<le> \<bar>x\<bar>" and "\<bar>x\<bar> < 2 powr (of_int k + 1)" and "- 1022 \<le> k"
    and "\<bar>x / 2 powr (of_int k - 52) - of_int n\<bar> < 1 / 2"
  shows "binary64 x = 2 powr (of_int k - 52) * of_int n"
proof -
  have "0 < (2::real) powr of_int k" by simp
  with assms(1) have pos: "0 < \<bar>x\<bar>" by linarith
  from assms(1,2) have "\<lfloor>log 2 \<bar>x\<bar>\<rfloor> = k"
    using floor_log_eq_powr_iff [OF pos, of 2 k] by simp
  with assms(3) have "max (- 1022) \<lfloor>log 2 \<bar>x\<bar>\<rfloor> = k" by simp
  then show ?thesis
    by (simp add: binary64_def Let_def roundTiesToEven_near [OF assms(4)])
qed

lemma powr2_neg: "(2::real) powr (- real m) = 1 / 2 ^ m"
  by (simp add: powr_minus powr_realpow inverse_eq_divide)

lemma binary64_scaled:
  assumes "r = of_int k" and "2 powr r \<le> \<bar>x\<bar>" and "\<bar>x\<bar> < 2 powr (r + 1)"
    and "- 1022 \<le> k" and "2 powr (r - 52) = 1 / c" and "\<bar>x * c - of_int n\<bar> < 1 / 2"
  shows "binary64 x = of_int n / c"
proof -
  from assms(5,6) have "\<bar>x / 2 powr (r - 52) - of_int n\<bar> < 1 / 2" by simp
  with assms(2,3,4) have "binary64 x = 2 powr (r - 52) * of_int n"
    unfolding assms(1) by (intro binary64_near)
  with assms(5) show ?thesis by simp
qed

lemma binary64_up:
  assumes "2 ^ k \<le> \<bar>x\<bar>" and "\<bar>x\<bar> < 2 * 2 ^ k" and "k \<le> 52"
    and "\<bar>x * 2 ^ (52 - k) - of_int n\<bar> < 1 / 2"
  shows "binary64 x = of_int n / 2 ^ (52 - k)"
proof (rule binary64_scaled [where r = "real k" and k = "int k"])
  show "real k = of_int (int k)" by simp
  show "2 powr real k \<le> \<bar>x\<bar>" using assms(1) by (simp add: powr_realpow)
  show "\<bar>x\<bar> < 2 powr (real k + 1)" using assms(2) by (simp add: powr_add powr_realpow)
  show "- 1022 \<le> int k" by simp
  from assms(3) have e: "real k - (52::real) = - real (52 - k)" by simp
  show "2 powr (real k - 52) = 1 / 2 ^ (52 - k)"
    unfolding e by (rule powr2_neg)
  show "\<bar>x * 2 ^ (52 - k) - of_int n\<bar> < 1 / 2" by (rule assms(4))
qed

lemma binary64_down:
  assumes "1 / 2 ^ j \<le> \<bar>x\<bar>" and "\<bar>x\<bar> < 2 / 2 ^ j" and "j \<le> 1022"
    and "\<bar>x * 2 ^ (52 + j) - of_int n\<bar> < 1 / 2"
  shows "binary64 x = of_int n / 2 ^ (52 + j)"
proof (rule binary64_scaled [where r = "- real j" and k = "- int j"])
  have p: "(2::real) powr (- real j) = 1 / 2 ^ j"
    by (rule powr2_neg)
  show "- real j = of_int (- int j)" by simp
  show "2 powr (- real j) \<le> \<bar>x\<bar>" using assms(1) by (simp only: p)
  have "(2::real) powr (- real j + 1) = 2 powr (- real j) * 2 powr 1" by (rule powr_add)
  also have "\<dots> = 2 / 2 ^ j" by (simp only: p) simp
  finally show "\<bar>x\<bar> < 2 powr (- real j + 1)" using assms(2) by simp
  show "- 1022 \<le> - int j" using assms(3) by simp
  have e: "- real j - (52::real) = - real (52 + j)" by simp
  show "2 powr (- real j - 52) = 1 / 2 ^ (52 + j)"
    unfolding e by (rule powr2_neg)
  show "\<bar>x * 2 ^ (52 + j) - of_int n\<bar> < 1 / 2" by (rule assms(4))
qed

lemma binary64_three_tenths: "binary64 0.3 = 5404319552844595 / 2 ^ 54"
  using binary64_down [of 2 "0.3" 5404319552844595] by simp

lemma rounded_ease_80:
  "easeOutExpoSlow_in rounded (quot rounded 80 200) = 8838314268714598 / 2 ^ 53"
proof -
  have e1: "binary64 (80 / 200) = 7205759403792794 / 2 ^ 54"
    using binary64_down [of 2 "80 / 200" 7205759403792794] by simp
  have e2: "binary64 (- 10 * (7205759403792794 / 2 ^ 54)) = - 4"
    using binary64_up [of 2 "- 10 * (7205759403792794 / 2 ^ 54)" "- 4503599627370496"]
    by simp
  have p: "(2::real) powr (- 4) = 1 / 16"
    using powr2_neg [of 4] by simp
  have e3: "binary64 (1 / 16) = 1 / 16"
    using binary64_down [of 4 "1 / 16" 4503599627370496] by simp
  have e5: "binary64 ((1 / 16) * (5404319552844595 / 2 ^ 54)) = 5404319552844595 / 2 ^ 58"
    using binary64_down [of 6 "(1 / 16) * (5404319552844595 / 2 ^ 54)" 5404319552844595]
    by simp
  have e6: "binary64 (1 - 5404319552844595 / 2 ^ 58) = 8838314268714598 / 2 ^ 53"
    using binary64_down [of 1 "1 - 5404319552844595 / 2 ^ 58" 8838314268714598] by simp
  have ne: "(7205759403792794 / 2 ^ 54 :: real) \<noteq> 1" by simp
  show ?thesis
    unfolding easeOutExpoSlow_in_def rounded_ops e1 if_not_P [OF ne] e2 p e3
      binary64_three_tenths e5 e6 ..
qed

lemma rounded_ease_20:
  "easeOutExpoSlow_in rounded (quot rounded 20 200) = 7656119366529843 / 2 ^ 53"
proof -
  have e1: "binary64 (20 / 200) = 7205759403792794 / 2 ^ 56"
    using binary64_down [of 4 "20 / 200" 7205759403792794] by simp
  have e2: "binary64 (- 10 * (7205759403792794 / 2 ^ 56)) = - 1"
    using binary64_up [of 0 "- 10 * (7205759403792794 / 2 ^ 56)" "- 4503599627370496"]
    by simp
  have p: "(2::real) powr (- 1) = 1 / 2"
    using powr2_neg [of 1] by simp
  have e3: "binary64 (1 / 2) = 1 / 2"
    using binary64_down [of 1 "1 / 2" 4503599627370496] by simp
  have e5: "binary64 ((1 / 2) * (5404319552844595 / 2 ^ 54)) = 5404319552844595 / 2 ^ 55"
    using binary64_down [of 3 "(1 / 2) * (5404319552844595 / 2 ^ 54)" 5404319552844595]
    by simp
  have e6: "binary64 (1 - 5404319552844595 / 2 ^ 55) = 7656119366529843 / 2 ^ 53"
    using binary64_down [of 1 "1 - 5404319552844595 / 2 ^ 55" 7656119366529843] by simp
  have ne: "(7205759403792794 / 2 ^ 56 :: real) \<noteq> 1" by simp
  show ?thesis
    unfolding easeOutExpoSlow_in_def rounded_ops e1 if_not_P [OF ne] e2 p e3
      binary64_three_tenths e5 e6 ..
qed

lemma rounded_product_999:
  "mul rounded (1119400882698827 / 2 ^ 40) (8838314268714598 / 2 ^ 53) = 999"
  using binary64_up [of 9 "(1119400882698827 / 2 ^ 40) * (8838314268714598 / 2 ^ 53)"
      "999 * 2 ^ 43"]
  by simp

lemma rounded_product_3_2:
  "mul rounded (1986882188545807 / 2 ^ 50) (7656119366529843 / 2 ^ 53) = 3 / 2"
  using binary64_up [of 0 "(1986882188545807 / 2 ^ 50) * (7656119366529843 / 2 ^ 53)"
      "6755399441055744"]
  by simp

text \<open>
  In rounded arithmetic the progress of step 200 is 1, and multiplying a double by 1
  gives the double.
\<close>

lemma rounded_last_progress: "quot rounded (real steps) (real steps) = 1"
  using binary64_up [of 0 1 4503599627370496] by (simp add: steps_def)

lemma rounded_times_one: "binary64 t = t \<Longrightarrow> mul rounded t 1 = t"
  by simp

text \<open>
  Where rounding decides what is displayed. With the target \<open>1018.0891719745223\<close> at
  index 3, the rounded product at tick 80 is exactly 999 and the tick shows \<open>1\<close> and
  \<open>K+\<close>; the exact product is below 999 and exact arithmetic shows 998. With the target
  \<open>1.7647058823529411\<close> at index 0, the rounded product at tick 20 is exactly 1.5 and
  the tick shows 2; exact arithmetic shows 1.
\<close>

lemma rounded_tick_80:
  assumes "step_in rounded env s Tick = Some (Inr s')" and "currentStep s = 79"
    and "3 < length (metricsData s)"
    and "js_index (finalValues s) 3 = Num (1119400882698827 / 2 ^ 40)"
  shows "value_m (metricsData s' ! 3) = Num 1 \<and> suffix_m (metricsData s' ! 3) = ''K+''"
proof -
  have n: "real (Suc 79) = 80" "real steps = 200" by (simp_all add: steps_def)
  show ?thesis
    unfolding tick_progress [OF assms(1,2,3)] n rounded_ease_80
      updateMetric_in_largeCount [OF assms(4)] rounded_product_999
    by simp
qed

lemma exact_tick_80:
  assumes "step env s Tick = Some (Inr s')" and "currentStep s = 79"
    and "3 < length (metricsData s)"
    and "js_index (finalValues s) 3 = Num (1119400882698827 / 2 ^ 40)"
  shows "value_m (metricsData s' ! 3) = Num 998 \<and> suffix_m (metricsData s' ! 3) = ''''"
proof -
  have n: "real (Suc 79) = 80" "real steps = 200" by (simp_all add: steps_def)
  have p: "(2::real) powr (- 4) = 1 / 16"
    using powr2_neg [of 4] by simp
  have e: "easeOutExpoSlow (quot exact 80 200) = 157 / 160"
    by (simp add: easeOutExpoSlow_exact p)
  show ?thesis
    unfolding tick_progress [OF assms(1,2,3)] n e updateMetric_in_largeCount [OF assms(4)]
    by simp
qed

lemma rounded_tick_20:
  assumes "step_in rounded env s Tick = Some (Inr s')" and "currentStep s = 19"
    and "0 < length (metricsData s)"
    and "js_index (finalValues s) 0 = Num (1986882188545807 / 2 ^ 50)"
  shows "value_m (metricsData s' ! 0) = Num 2"
proof -
  have n: "real (Suc 19) = 20" "real steps = 200" by (simp_all add: steps_def)
  have a: "(0::nat) \<noteq> 3" by simp
  have b: "(1986882188545807 / 2 ^ 50 :: real) \<le> 5" by simp
  show ?thesis
    unfolding tick_progress [OF assms(1,2,3)] n rounded_ease_20
      updateMetric_in_small [OF a assms(4) b] rounded_product_3_2
    by (simp add: snapped_def)
qed

lemma exact_tick_20:
  assumes "step env s Tick = Some (Inr s')" and "currentStep s = 19"
    and "0 < length (metricsData s)"
    and "js_index (finalValues s) 0 = Num (1986882188545807 / 2 ^ 50)"
  shows "value_m (metricsData s' ! 0) = Num 1"
proof -
  have n: "real (Suc 19) = 20" "real steps = 200" by (simp_all add: steps_def)
  have p: "(2::real) powr (- 1) = 1 / 2"
    using powr2_neg [of 1] by simp
  have e: "easeOutExpoSlow (quot exact 20 200) = 17 / 20"
    by (simp add: easeOutExpoSlow_exact p)
  have a: "(0::nat) \<noteq> 3" by simp
  have b: "(1986882188545807 / 2 ^ 50 :: real) \<le> 5" by simp
  show ?thesis
    unfolding tick_progress [OF assms(1,2,3)] n e updateMetric_in_small [OF a assms(4) b]
    by (simp add: snapped_def)
qed

section \<open>The claims\<close>

subsection \<open>The easing curve\<close>



subsection \<open>The metric at position 3\<close>

text \<open>
  Claim C2. For the metric at index 3 with target \<open>t\<close>, in every arithmetic and whatever
  the eased progress \<open>e\<close>: with the product of \<open>t\<close> and \<open>e\<close> as the arithmetic computes
  it, below 999 the update gives the floor of the product with the empty suffix,
  otherwise \<open>1\<close> with \<open>K+\<close>. Every tick does this with the eased progress it computes
  for its step. The eased progress of progress 1 is 1, by the special case; a tick whose
  progress is 1 leaves \<open>(1, K+)\<close> when the product of \<open>t\<close> and \<open>ease 1\<close> is at least 999,
  and otherwise the floor of the product, which is the floor of \<open>t\<close> when multiplying
  by 1 changes nothing, with the empty suffix.
\<close>

theorem largeCount_display:
  assumes "step_in ar env s Tick = Some (Inr s')"
    and "3 < length (metricsData s)"
    and "js_index (finalValues s) 3 = Num t"
  shows
    "(value_m (updateMetric_in ar (finalValues s) e m 3),
      suffix_m (updateMetric_in ar (finalValues s) e m 3)) =
       (if mul ar t e < 999 then (Num (of_int \<lfloor>mul ar t e\<rfloor>), '''') else (Num 1, ''K+'')) \<and>
     (value_m (metricsData s' ! 3), suffix_m (metricsData s' ! 3)) =
       (if mul ar t (easeOutExpoSlow_in ar (quot ar (real (currentStep s')) (real steps))) < 999
        then (Num (of_int \<lfloor>mul ar t
                (easeOutExpoSlow_in ar (quot ar (real (currentStep s')) (real steps)))\<rfloor>), '''')
        else (Num 1, ''K+'')) \<and>
     easeOutExpoSlow_in ar 1 = 1 \<and>
     (quot ar (real (currentStep s')) (real steps) = 1 \<longrightarrow>
        (value_m (metricsData s' ! 3), suffix_m (metricsData s' ! 3)) =
          (if mul ar t (easeOutExpoSlow_in ar 1) < 999
           then (Num (of_int \<lfloor>mul ar t (easeOutExpoSlow_in ar 1)\<rfloor>), '''')
           else (Num 1, ''K+''))) \<and>
     (quot ar (real (currentStep s')) (real steps) = 1 \<and> mul ar t 1 = t \<longrightarrow>
        (value_m (metricsData s' ! 3), suffix_m (metricsData s' ! 3)) =
          (if mul ar t (easeOutExpoSlow_in ar 1) < 999 then (Num (of_int \<lfloor>t\<rfloor>), '''')
           else (Num 1, ''K+'')))"
proof -
  let ?p = "quot ar (real (currentStep s')) (real steps)"
  let ?pair = "(value_m (metricsData s' ! 3), suffix_m (metricsData s' ! 3))"
  from assms(1,2) have nth:
    "metricsData s' ! 3 =
       updateMetric_in ar (finalValues s) (easeOutExpoSlow_in ar ?p) (metricsData s ! 3) 3"
    using step_in_Tick_nth by blast
  have a: "(value_m (updateMetric_in ar (finalValues s) x y 3),
      suffix_m (updateMetric_in ar (finalValues s) x y 3)) =
       (if mul ar t x < 999 then (Num (of_int \<lfloor>mul ar t x\<rfloor>), '''') else (Num 1, ''K+''))"
    for x y
    by (simp add: updateMetric_in_largeCount [OF assms(3)])
  have tick: "?pair =
       (if mul ar t (easeOutExpoSlow_in ar ?p) < 999
        then (Num (of_int \<lfloor>mul ar t (easeOutExpoSlow_in ar ?p)\<rfloor>), '''')
        else (Num 1, ''K+''))"
    unfolding nth by (rule a)
  have one: "easeOutExpoSlow_in ar 1 = 1" by (rule easeOutExpoSlow_in_one)
  have last: "?pair =
          (if mul ar t (easeOutExpoSlow_in ar 1) < 999
           then (Num (of_int \<lfloor>mul ar t (easeOutExpoSlow_in ar 1)\<rfloor>), '''')
           else (Num 1, ''K+''))"
    if "?p = 1"
    using tick unfolding that .
  have last': "?pair =
          (if mul ar t (easeOutExpoSlow_in ar 1) < 999 then (Num (of_int \<lfloor>t\<rfloor>), '''')
           else (Num 1, ''K+''))"
    if "?p = 1" "mul ar t 1 = t"
    using last [OF that(1)] by (simp add: one that(2))
  from a [of e m] tick one last last' show ?thesis by blast
qed

theorem largeCount_display_witness:
  "step_in exact exampleEnv exampleBeforeLast Tick = Some (Inr exampleFinal) \<and>
   3 < length (metricsData exampleBeforeLast) \<and>
   js_index (finalValues exampleBeforeLast) 3 = Num 1500 \<and>
   quot exact (real (currentStep exampleFinal)) (real steps) = 1 \<and>
   mul exact 1500 1 = 1500 \<and>
   (value_m (updateMetric_in exact (finalValues exampleBeforeLast) (1 / 3)
       (metricsData exampleBeforeLast ! 3) 3),
    suffix_m (updateMetric_in exact (finalValues exampleBeforeLast) (1 / 3)
       (metricsData exampleBeforeLast ! 3) 3)) = (Num 500, '''') \<and>
   (value_m (metricsData exampleFinal ! 3), suffix_m (metricsData exampleFinal ! 3)) =
     (Num 1, ''K+'')"
proof -
  have h2: "3 < length (metricsData exampleBeforeLast)"
    by (simp add: exampleBeforeLast_def exampleStarted_def exampleCatalog_def)
  have h3: "js_index (finalValues exampleBeforeLast) 3 = Num 1500"
    by (simp add: exampleBeforeLast_def exampleStarted_def exampleCatalog_def js_index_def)
  have h4: "quot exact (real (currentStep exampleFinal)) (real steps) = 1"
    by (simp add: exampleFinal_def steps_def)
  have h5: "mul exact 1500 1 = 1500" by simp
  show ?thesis
    using largeCount_display [OF example_last_tick h2 h3, of "1 / 3"
        "metricsData exampleBeforeLast ! 3"]
      example_last_tick h2 h3 h4 h5
    by (simp add: ease_one)
qed

subsection \<open>Small targets\<close>

text \<open>
  Claim C3. For a metric at an index other than 3 whose target \<open>t\<close> is at most 5, in
  every arithmetic and whatever the eased progress \<open>e\<close>: the update computes the
  displayed value from \<open>raw\<close>, the product of \<open>t\<close> and \<open>e\<close> as the arithmetic computes it,
  by the thresholds: 0 below 0.5, 1 below 1.5, 2 below 2.5, the rounded value otherwise,
  and leaves the suffix alone; so \<open>raw = 1.4\<close> is displayed as 1. Every tick applies this
  update with the eased progress it computes for its step.
\<close>

theorem smallTarget_display:
  assumes "index \<noteq> 3" and "js_index fv index = Num t" and "t \<le> 5"
  shows
    "value_m (updateMetric_in ar fv e metric index) =
       (if mul ar t e < 0.5 then Num 0 else if mul ar t e < 1.5 then Num 1
        else if mul ar t e < 2.5 then Num 2 else Num (of_int (round (mul ar t e)))) \<and>
     value_m (updateMetric_in ar fv e metric index) = Num (of_int (snapped (mul ar t e))) \<and>
     suffix_m (updateMetric_in ar fv e metric index) = suffix_m metric \<and>
     (mul ar t e = 1.4 \<longrightarrow> value_m (updateMetric_in ar fv e metric index) = Num 1) \<and>
     (step_in ar env s Tick = Some (Inr s') \<and> finalValues s = fv \<and>
      index < length (metricsData s) \<longrightarrow>
        metricsData s' ! index =
          updateMetric_in ar fv
            (easeOutExpoSlow_in ar (quot ar (real (currentStep s')) (real steps)))
            (metricsData s ! index) index)"
proof -
  note u = updateMetric_in_small [OF assms]
  have "value_m (updateMetric_in ar fv e metric index) = Num (of_int (snapped (mul ar t e)))"
    by (simp add: u)
  moreover have "suffix_m (updateMetric_in ar fv e metric index) = suffix_m metric"
    by (simp add: u)
  moreover have "metricsData s' ! index =
      updateMetric_in ar fv (easeOutExpoSlow_in ar (quot ar (real (currentStep s')) (real steps)))
        (metricsData s ! index) index"
    if "step_in ar env s Tick = Some (Inr s')" "finalValues s = fv"
      "index < length (metricsData s)"
    using step_in_Tick_nth [OF that(1,3)] that(2) by simp
  ultimately show ?thesis
    by (simp add: snapped_def)
qed

theorem smallTarget_display_witness:
  "(1::nat) \<noteq> 3 \<and> js_index (finalValues exampleStarted) 1 = Num 3 \<and> (3::real) \<le> 5 \<and>
   mul exact 3 (7 / 15) = 1.4 \<and>
   value_m (updateMetric_in exact (finalValues exampleStarted) (7 / 15)
     (metricsData exampleStarted ! 1) 1) = Num 1 \<and>
   step_in exact exampleEnv exampleStarted Tick = Some (Inr (intervalCallback_in exact exampleStarted)) \<and>
   1 < length (metricsData exampleStarted) \<and>
   metricsData (intervalCallback_in exact exampleStarted) ! 1 =
     updateMetric_in exact (finalValues exampleStarted)
       (easeOutExpoSlow_in exact
          (quot exact (real (currentStep (intervalCallback_in exact exampleStarted))) (real steps)))
       (metricsData exampleStarted ! 1) 1"
proof -
  have h1: "(1::nat) \<noteq> 3" by simp
  have h2: "js_index (finalValues exampleStarted) 1 = Num 3"
    by (simp add: exampleStarted_def exampleCatalog_def js_index_def)
  have h3: "(3::real) \<le> 5" by simp
  have h4: "step_in exact exampleEnv exampleStarted Tick =
      Some (Inr (intervalCallback_in exact exampleStarted))"
    by (simp add: exampleStarted_def)
  have h5: "1 < length (metricsData exampleStarted)"
    by (simp add: exampleStarted_def exampleCatalog_def)
  have h6: "mul exact 3 (7 / 15) = 1.4" by simp
  from smallTarget_display [OF h1 h2 h3, of exact "7 / 15" "metricsData exampleStarted ! 1"
        exampleEnv exampleStarted "intervalCallback_in exact exampleStarted"] h1 h2 h3 h4 h5 h6
  show ?thesis by blast
qed



subsection \<open>The last tick\<close>

text \<open>
  Claim C1, as the code has it. When the tick that brings \<open>currentStep\<close> to 200 runs
  after the catalog has been loaded, every metric of the catalog is displayed, and: a
  metric at an index other than 3 whose target is a natural number shows exactly its
  target, with the suffix of its catalog entry; the metric at index 3 shows the floor of
  its target with the empty suffix when the target is below 999, and \<open>1\<close> with \<open>K+\<close>
  otherwise. So the last mutation lands on the target for every metric but the one at
  index 3, whose suffix is replaced and whose value is 1 from a target of 999 on.
\<close>

theorem final_tick_values:
  assumes "mount env = Inr s0" and "run env s0 (evs @ [Tick]) = Some (Inr s')"
    and "FetchResolved cfgs \<in> set evs" and "currentStep s' = steps" and "i < length cfgs"
  shows
    "i < length (metricsData s') \<and>
     (i \<noteq> 3 \<and> value_c (cfgs ! i) = Num (of_nat n) \<longrightarrow>
        value_m (metricsData s' ! i) = Num (of_nat n) \<and>
        suffix_m (metricsData s' ! i) = suffix_c (cfgs ! i)) \<and>
     (i = 3 \<and> value_c (cfgs ! i) = Num t \<and> t < 999 \<longrightarrow>
        value_m (metricsData s' ! i) = Num (of_int \<lfloor>t\<rfloor>) \<and> suffix_m (metricsData s' ! i) = '''') \<and>
     (i = 3 \<and> value_c (cfgs ! i) = Num t \<and> 999 \<le> t \<longrightarrow>
        value_m (metricsData s' ! i) = Num 1 \<and> suffix_m (metricsData s' ! i) = ''K+'')"
proof -
  from assms(2) obtain s where s: "run env s0 evs = Some (Inr s)"
    and st: "step env s Tick = Some (Inr s')"
    using run_snoc by blast
  from assms(1) have "inv s0" using mount_inv by blast
  with s have invs: "inv s" using run_inv by blast
  from \<open>inv s0\<close> s assms(3) have ld: "loaded cfgs s" by (rule run_loaded)
  from final_tick [OF invs ld st assms(4,5)] have
    len: "i < length (metricsData s')"
    and nth: "metricsData s' ! i = updateMetric (map value_c cfgs) 1 (metricsData s ! i) i"
    and suf: "i \<noteq> 3 \<longrightarrow> suffix_m (metricsData s ! i) = suffix_c (cfgs ! i)"
    by simp_all
  from assms(5) have idx: "js_index (map value_c cfgs) i = value_c (cfgs ! i)"
    by (simp add: js_index_def)
  have a: "value_m (metricsData s' ! i) = Num (of_nat n) \<and>
        suffix_m (metricsData s' ! i) = suffix_c (cfgs ! i)"
    if "i \<noteq> 3" "value_c (cfgs ! i) = Num (of_nat n)"
  proof -
    from that idx have "js_index (map value_c cfgs) i = Num (of_nat n)" by simp
    from updateMetric_final_nat [OF that(1) this] suf that(1) show ?thesis
      by (simp add: nth)
  qed
  have b: "(value_m (metricsData s' ! i), suffix_m (metricsData s' ! i)) =
      (if t < 999 then (Num (of_int \<lfloor>t\<rfloor>), '''') else (Num 1, ''K+''))"
    if "i = 3" "value_c (cfgs ! i) = Num t"
  proof -
    from that idx have "js_index (map value_c cfgs) 3 = Num t" by simp
    note u = updateMetric_largeCount [OF this, of 1 "metricsData s ! i"]
    from nth that(1) have "metricsData s' ! i = updateMetric (map value_c cfgs) 1 (metricsData s ! i) 3"
      by simp
    then show ?thesis by (simp add: u)
  qed
  from len a b show ?thesis by auto
qed

theorem final_tick_values_witness:
  "mount exampleEnv = Inr exampleMounted \<and>
   run exampleEnv exampleMounted ((exampleEvents @ replicate 199 Tick) @ [Tick]) =
     Some (Inr exampleFinal) \<and>
   FetchResolved exampleCatalog \<in> set (exampleEvents @ replicate 199 Tick) \<and>
   currentStep exampleFinal = steps \<and> 0 < length exampleCatalog \<and> 3 < length exampleCatalog \<and>
   value_c (exampleCatalog ! 0) = Num (of_nat 42) \<and>
   value_m (metricsData exampleFinal ! 0) = Num (of_nat 42) \<and>
   suffix_m (metricsData exampleFinal ! 0) = ''ms'' \<and>
   value_c (exampleCatalog ! 3) = Num 1500 \<and>
   value_m (metricsData exampleFinal ! 3) = Num 1 \<and>
   suffix_m (metricsData exampleFinal ! 3) = ''K+''"
proof -
  have "replicate 199 Tick @ [Tick] = replicate 200 Tick"
    using replicate_add [of 199 1 Tick] by simp
  then have "(exampleEvents @ replicate 199 Tick) @ [Tick] = exampleEvents @ replicate 200 Tick"
    by simp
  then have h2: "run exampleEnv exampleMounted ((exampleEvents @ replicate 199 Tick) @ [Tick]) =
     Some (Inr exampleFinal)"
    by (simp only: example_run)
  have h3: "FetchResolved exampleCatalog \<in> set (exampleEvents @ replicate 199 Tick)"
    by (simp add: exampleEvents_def)
  have h4: "currentStep exampleFinal = steps"
    by (simp add: exampleFinal_def steps_def)
  have h5: "0 < length exampleCatalog" "3 < length exampleCatalog"
    by (simp_all add: exampleCatalog_def)
  have v: "value_c (exampleCatalog ! 0) = Num (of_nat 42)" "value_c (exampleCatalog ! 3) = Num 1500"
    "suffix_c (exampleCatalog ! 0) = ''ms''"
    by (simp_all add: exampleCatalog_def)
  from final_tick_values [OF example_mount h2 h3 h4 h5(1), of 42]
    final_tick_values [OF example_mount h2 h3 h4 h5(2), of _ 1500]
    example_mount h2 h3 h4 h5 v
  show ?thesis by simp
qed

text \<open>
  The page view of the example: after the 200th tick the metric at index 3, whose target
  is 1500, shows 1.
\<close>

theorem final_value_counterexample:
  "mount exampleEnv = Inr exampleMounted \<and>
   run exampleEnv exampleMounted (exampleEvents @ replicate 200 Tick) = Some (Inr exampleFinal) \<and>
   currentStep exampleFinal = steps \<and>
   value_c (exampleCatalog ! 3) = Num 1500 \<and>
   value_m (metricsData exampleFinal ! 3) = Num 1 \<and>
   value_m (metricsData exampleFinal ! 3) \<noteq> value_c (exampleCatalog ! 3)"
  by (simp add: example_mount example_run)
    (simp add: exampleFinal_def exampleStarted_def exampleCatalog_def steps_def)

subsection \<open>The trigger and the timer\<close>

text \<open>
  Claim C6. Along every run of a mounted component: \<open>hasAnimated\<close> turns from false to
  true at most once (the trigger fires at most once), and once true it stays true;
  \<open>setInterval\<close> is called at most once; while \<open>hasAnimated\<close> is false no timer has
  been started, none is active and \<open>currentStep\<close> is 0; and an event changes
  \<open>currentStep\<close> only in a state where \<open>hasAnimated\<close> is true.
\<close>

theorem trigger_once:
  assumes "mount env = Inr s0" and "run env s0 evs = Some (Inr s)"
    and "run env s evs' = Some (Inr s')"
  shows
    "firings env s0 (evs @ evs') \<le> 1 \<and>
     (hasAnimated s \<longrightarrow> hasAnimated s') \<and>
     intervalsStarted s' \<le> 1 \<and>
     (\<not> hasAnimated s' \<longrightarrow>
        intervalsStarted s' = 0 \<and> \<not> intervalActive s' \<and> currentStep s' = 0) \<and>
     (currentStep s' \<noteq> currentStep s \<longrightarrow> hasAnimated s') \<and>
     (\<forall>ev s1. step env s ev = Some (Inr s1) \<and> currentStep s1 \<noteq> currentStep s \<longrightarrow>
        hasAnimated s)"
proof -
  from assms(1) have i0: "inv s0" using mount_inv by blast
  with assms(2) have i1: "inv s" using run_inv by blast
  with assms(3) have i2: "inv s'" using run_inv by blast
  have f: "firings env s0 (evs @ evs') \<le> 1"
    using firings_bound [of env s0 "evs @ evs'"] by (simp split: if_splits)
  have m: "hasAnimated s \<longrightarrow> hasAnimated s'"
    using assms(3) run_hasAnimated by blast
  have c: "\<not> hasAnimated s' \<longrightarrow>
        intervalsStarted s' = 0 \<and> \<not> intervalActive s' \<and> currentStep s' = 0"
    using i2 by (auto simp: inv_def)
  have n: "intervalsStarted s' \<le> 1"
    using i2 by (cases "depHasAnimated s'") (simp_all add: inv_def)
  have d: "currentStep s' \<noteq> currentStep s \<longrightarrow> hasAnimated s'"
  proof
    assume ne: "currentStep s' \<noteq> currentStep s"
    show "hasAnimated s'"
    proof (rule ccontr)
      assume na: "\<not> hasAnimated s'"
      with m have "\<not> hasAnimated s" by blast
      with i1 have "currentStep s = 0" by (auto simp: inv_def)
      moreover from na c have "currentStep s' = 0" by blast
      ultimately show False using ne by simp
    qed
  qed
  have e: "\<forall>ev s1. step env s ev = Some (Inr s1) \<and> currentStep s1 \<noteq> currentStep s \<longrightarrow>
        hasAnimated s"
    using i1 step_currentStep by blast
  from f m n c d e show ?thesis by blast
qed

theorem trigger_once_witness:
  "mount exampleEnv = Inr exampleMounted \<and>
   run exampleEnv exampleMounted exampleEvents = Some (Inr exampleStarted) \<and>
   run exampleEnv exampleStarted (replicate 200 Tick) = Some (Inr exampleFinal) \<and>
   firings exampleEnv exampleMounted (exampleEvents @ replicate 200 Tick) \<le> 1 \<and>
   hasAnimated exampleStarted \<and> hasAnimated exampleFinal \<and>
   intervalsStarted exampleFinal \<le> 1 \<and>
   currentStep exampleFinal \<noteq> currentStep exampleStarted"
proof -
  have a: "hasAnimated exampleStarted" "currentStep exampleFinal \<noteq> currentStep exampleStarted"
    by (simp_all add: exampleStarted_def exampleFinal_def)
  from trigger_once [OF example_mount example_started example_ticks] a
    example_mount example_started example_ticks
  show ?thesis by simp
qed

text \<open>
  Claim C7. The delay of the timer is \<open>3500 / 200 = 17.5\<close>. From the state in which
  the timer has just been started, \<open>n \<le> 200\<close> ticks can run and bring \<open>currentStep\<close> to
  \<open>n\<close>; after them the timer is active exactly if \<open>currentStep\<close> is below 200; after
  200 ticks it is cleared, so no further tick can run, and no run has more than 200 ticks.
  Only the delay handed to the timer is modelled, not the passing of time.
\<close>

theorem timer_ticks:
  assumes "hasAnimated s" and "step env s Commit = Some (Inr s1)" and "n \<le> steps"
  shows
    "duration = 3500 \<and> steps = 200 \<and> stepDuration = duration / real steps \<and>
     stepDuration = 17.5 \<and>
     intervalActive s1 \<and> currentStep s1 = 0 \<and>
     (\<exists>sn. run env s1 (replicate n Tick) = Some (Inr sn) \<and>
        currentStep sn = n \<and>
        (intervalActive sn \<longleftrightarrow> currentStep sn < steps) \<and>
        (n = steps \<longrightarrow> step env sn Tick = None \<and> run env sn (replicate (Suc m) Tick) = None)) \<and>
     run env s1 (replicate (steps + Suc m) Tick) = None"
proof -
  from commit_starts [OF assms(1,2)] have act: "intervalActive s1" and c0: "currentStep s1 = 0"
    by simp_all
  let ?after = "\<lambda>n. s1\<lparr>currentStep := currentStep s1 + n,
      metricsData := mapIndexed (updateMetric (finalValues s1)
        (easeOutExpoSlow (real (currentStep s1 + n) / real steps))) 0 (metricsData s1),
      intervalActive := currentStep s1 + n < steps\<rparr>"
  have runs: "run env s1 (replicate k Tick) = Some (Inr (?after k))"
    if "1 \<le> k" "k \<le> steps" for k
  proof -
    from that obtain k' where k': "k = Suc k'" by (cases k) simp_all
    from that have "currentStep s1 + Suc k' \<le> steps" by (simp add: k' c0)
    from run_ticks [OF act this] show ?thesis by (simp add: k')
  qed
  have ex: "\<exists>sn. run env s1 (replicate n Tick) = Some (Inr sn) \<and>
        currentStep sn = n \<and>
        (intervalActive sn \<longleftrightarrow> currentStep sn < steps) \<and>
        (n = steps \<longrightarrow> step env sn Tick = None \<and> run env sn (replicate (Suc m) Tick) = None)"
  proof (cases n)
    case 0
    then show ?thesis using act c0 by (simp add: steps_def)
  next
    case (Suc k)
    with assms(3) have "1 \<le> n" "n \<le> steps" by simp_all
    from runs [OF this] show ?thesis
      by (intro exI [of _ "?after n"]) (simp add: c0)
  qed
  have "1 \<le> steps" by (simp add: steps_def)
  from runs [OF this order_refl]
  have full: "run env s1 (replicate steps Tick) = Some (Inr (?after steps))" .
  have "\<not> intervalActive (?after steps)" by (simp add: c0)
  then have none: "run env (?after steps) (replicate (Suc m) Tick) = None"
    by (rule run_ticks_none)
  have "replicate (steps + Suc m) Tick = replicate steps Tick @ replicate (Suc m) Tick"
    by (rule replicate_add)
  then have over: "run env s1 (replicate (steps + Suc m) Tick) = None"
    by (simp only: run_append full none option.case sum.case)
  from act c0 ex over show ?thesis
    by (simp add: stepDuration_value) (simp add: stepDuration_def duration_def steps_def)
qed

theorem timer_ticks_witness:
  "hasAnimated (exampleStarted\<lparr>depHasAnimated := False, intervalActive := False,
      intervalsStarted := 0, observing := True\<rparr>) \<and>
   step exampleEnv (exampleStarted\<lparr>depHasAnimated := False, intervalActive := False,
      intervalsStarted := 0, observing := True\<rparr>) Commit = Some (Inr exampleStarted) \<and>
   200 \<le> steps \<and> stepDuration = 17.5 \<and>
   (\<exists>sn. run exampleEnv exampleStarted (replicate 200 Tick) = Some (Inr sn) \<and>
      currentStep sn = 200 \<and> \<not> intervalActive sn \<and> step exampleEnv sn Tick = None) \<and>
   run exampleEnv exampleStarted (replicate (steps + Suc 0) Tick) = None"
proof -
  let ?s = "exampleStarted\<lparr>depHasAnimated := False, intervalActive := False,
      intervalsStarted := 0, observing := True\<rparr>"
  have h1: "hasAnimated ?s" by (simp add: exampleStarted_def)
  have h2: "step exampleEnv ?s Commit = Some (Inr exampleStarted)"
    by (simp add: exampleStarted_def effectObserve_def cleanupObserve_def effectAnimate_def
        cleanupAnimate_def)
  have h3: "200 \<le> steps" by (simp add: steps_def)
  note t = timer_ticks [OF h1 h2 h3, of 0]
  from t obtain sn where sn: "run exampleEnv exampleStarted (replicate 200 Tick) = Some (Inr sn)"
    "currentStep sn = 200" "intervalActive sn \<longleftrightarrow> currentStep sn < steps"
    "200 = steps \<longrightarrow> step exampleEnv sn Tick = None"
    by blast
  from sn have "\<not> intervalActive sn" "step exampleEnv sn Tick = None"
    by (simp_all add: steps_def)
  with sn(1,2) have "\<exists>sn. run exampleEnv exampleStarted (replicate 200 Tick) = Some (Inr sn) \<and>
      currentStep sn = 200 \<and> \<not> intervalActive sn \<and> step exampleEnv sn Tick = None"
    by blast
  moreover from t have "stepDuration = 17.5"
    "run exampleEnv exampleStarted (replicate (steps + Suc 0) Tick) = None"
    by blast+
  ultimately show ?thesis using h1 h2 h3 by blast
qed

subsection \<open>A failed load\<close>

text \<open>
  Claim C8. When the promise of the fetch is rejected in a state a mounted component has
  reached, no metric has been set before; the handler returns a state and no error, the
  error is written to the console, a mounted component is no longer loading, and the
  list of metrics is empty; whatever events follow, none of them raises an error, the
  list of metrics stays empty and the component does not go back to loading.
\<close>

theorem catalog_failure:
  assumes "mount env = Inr s0" and "run env s0 evs = Some (Inr s)"
    and "step env s (FetchRejected err) = Some r"
  shows
    "metricsData s = [] \<and>
     (\<exists>s'. r = Inr s' \<and> metricsData s' = [] \<and> finalValues s' = [] \<and>
        (mounted s \<longrightarrow> \<not> loading s') \<and>
        consoleErrors s' = consoleErrors s @ [(''Error loading metrics config:'', err)] \<and>
        (\<forall>evs' r'. run env s' evs' = Some r' \<longrightarrow>
           (\<exists>s''. r' = Inr s'' \<and> metricsData s'' = [] \<and> (mounted s \<longrightarrow> \<not> loading s''))))"
proof -
  from assms(1) have "inv s0" using mount_inv by blast
  with assms(2) have i: "inv s" using run_inv by blast
  from assms(3) have p: "fetchPending s" and r: "r = Inr (fetchRejected err s)"
    by (simp_all split: if_splits)
  from i p have e: "metricsData s = []" "finalValues s = []" by (simp_all add: inv_def)
  let ?s' = "fetchRejected err s"
  from i assms(3) r have i': "inv ?s'" using step_inv by blast
  have f: "\<not> fetchPending ?s'" "metricsData ?s' = []" "finalValues ?s' = []"
    "mounted s \<longrightarrow> \<not> loading ?s'"
    "consoleErrors ?s' = consoleErrors s @ [(''Error loading metrics config:'', err)]"
    using e by (simp_all add: fetchRejected_def Let_def)
  have later: "\<exists>s''. r' = Inr s'' \<and> metricsData s'' = [] \<and> (mounted s \<longrightarrow> \<not> loading s'')"
    if "run env ?s' evs' = Some r'" for evs' r'
  proof -
    from i' that obtain s'' where s'': "r' = Inr s''" using run_inv by blast
    with that have "run env ?s' evs' = Some (Inr s'')" by simp
    from run_empty [OF f(1,2) this] f(4) s'' show ?thesis by simp
  qed
  from e r f later show ?thesis by blast
qed

theorem catalog_failure_witness:
  "mount exampleEnv = Inr exampleMounted \<and>
   run exampleEnv exampleMounted [Intersection [True], Commit, Tick] =
     Some (Inr (exampleMounted\<lparr>hasAnimated := True, observing := False,
        depHasAnimated := True, intervalActive := True, currentStep := 1,
        intervalsStarted := 1\<rparr>)) \<and>
   mounted (exampleMounted\<lparr>hasAnimated := True, observing := False,
        depHasAnimated := True, intervalActive := True, currentStep := 1,
        intervalsStarted := 1\<rparr>) \<and>
   (\<exists>s'. step exampleEnv (exampleMounted\<lparr>hasAnimated := True, observing := False,
        depHasAnimated := True, intervalActive := True, currentStep := 1,
        intervalsStarted := 1\<rparr>) (FetchRejected ''Failed to fetch'') = Some (Inr s') \<and>
      metricsData s' = [] \<and> \<not> loading s' \<and>
      consoleErrors s' = [(''Error loading metrics config:'', ''Failed to fetch'')] \<and>
      (\<exists>s''. run exampleEnv s' (replicate 199 Tick) = Some (Inr s'') \<and>
         metricsData s'' = [] \<and> \<not> loading s''))"
proof -
  let ?s = "exampleMounted\<lparr>hasAnimated := True, observing := False,
        depHasAnimated := True, intervalActive := True, currentStep := 1,
        intervalsStarted := 1\<rparr>"
  let ?s' = "fetchRejected ''Failed to fetch'' ?s"
  have h2: "run exampleEnv exampleMounted [Intersection [True], Commit, Tick] = Some (Inr ?s)"
    by (simp add: exampleMounted_def initialWidget_def observerCallback_def effectObserve_def
        cleanupObserve_def effectAnimate_def cleanupAnimate_def intervalCallback_exact Let_def
        steps_def)
  have h3: "step exampleEnv ?s (FetchRejected ''Failed to fetch'') = Some (Inr ?s')"
    by (simp add: exampleMounted_def)
  have m: "mounted ?s" "consoleErrors ?s = []"
    by (simp_all add: exampleMounted_def initialWidget_def)
  note t = catalog_failure [OF example_mount h2 h3]
  have a: "intervalActive ?s'" "currentStep ?s' + Suc 198 \<le> steps"
    by (simp_all add: fetchRejected_def Let_def exampleMounted_def steps_def)
  from run_ticks [OF a, of exampleEnv] obtain s'' where
    s'': "run exampleEnv ?s' (replicate 199 Tick) = Some (Inr s'')"
    by simp
  from t m have b: "metricsData ?s' = []" "\<not> loading ?s'"
    "consoleErrors ?s' = [(''Error loading metrics config:'', ''Failed to fetch'')]"
    by auto
  from t s'' m(1) have "metricsData s'' = [] \<and> \<not> loading s''" by blast
  with s'' b h3 have "\<exists>s'. step exampleEnv ?s (FetchRejected ''Failed to fetch'') = Some (Inr s') \<and>
      metricsData s' = [] \<and> \<not> loading s' \<and>
      consoleErrors s' = [(''Error loading metrics config:'', ''Failed to fetch'')] \<and>
      (\<exists>s''. run exampleEnv s' (replicate 199 Tick) = Some (Inr s'') \<and>
         metricsData s'' = [] \<and> \<not> loading s'')"
    by blast
  with example_mount h2 m(1) show ?thesis by blast
qed

subsection \<open>The observer\<close>

text \<open>
  Claim C9, as the code has it. When the global \<open>IntersectionObserver\<close> does not exist,
  the second effect throws a \<open>ReferenceError\<close> while mounting: there is no fallback, the
  trigger does not fire and no timer is started. When it exists, mounting gives a state
  in which the trigger has not fired and no timer runs, the section is observed if the
  ref is set, and no later event raises an error.
\<close>

theorem observer_capability:
  "(\<not> intersectionObserverDefined env \<longrightarrow> mount env = Inl ReferenceError) \<and>
   (intersectionObserverDefined env \<longrightarrow>
      (\<exists>s0. mount env = Inr s0 \<and> \<not> hasAnimated s0 \<and> \<not> intervalActive s0 \<and>
         observing s0 = sectionRefCurrent env \<and>
         (\<forall>evs r. run env s0 evs = Some r \<longrightarrow> (\<exists>s. r = Inr s))))"
proof (intro conjI impI)
  assume "\<not> intersectionObserverDefined env"
  then show "mount env = Inl ReferenceError" by (simp add: mount_cases)
next
  assume d: "intersectionObserverDefined env"
  let ?s0 = "initialWidget\<lparr>fetchPending := True, observing := sectionRefCurrent env\<rparr>"
  from d have m: "mount env = Inr ?s0" by (simp add: mount_cases)
  then have "inv ?s0" using mount_inv by blast
  then have "\<forall>evs r. run env ?s0 evs = Some r \<longrightarrow> (\<exists>s. r = Inr s)"
    using run_inv by blast
  with m show "\<exists>s0. mount env = Inr s0 \<and> \<not> hasAnimated s0 \<and> \<not> intervalActive s0 \<and>
         observing s0 = sectionRefCurrent env \<and>
         (\<forall>evs r. run env s0 evs = Some r \<longrightarrow> (\<exists>s. r = Inr s))"
    by (intro exI [of _ ?s0]) (simp add: initialWidget_def)
qed

theorem observer_capability_witness:
  "\<not> intersectionObserverDefined \<lparr>intersectionObserverDefined = False, sectionRefCurrent = True\<rparr> \<and>
   mount \<lparr>intersectionObserverDefined = False, sectionRefCurrent = True\<rparr> = Inl ReferenceError \<and>
   intersectionObserverDefined exampleEnv \<and>
   (\<exists>s0. mount exampleEnv = Inr s0 \<and> \<not> hasAnimated s0 \<and> \<not> intervalActive s0 \<and> observing s0 \<and>
      (\<exists>s. run exampleEnv s0 exampleEvents = Some (Inr s)))"
proof -
  have a: "\<not> intersectionObserverDefined \<lparr>intersectionObserverDefined = False, sectionRefCurrent = True\<rparr>"
    by simp
  have b: "intersectionObserverDefined exampleEnv" "sectionRefCurrent exampleEnv"
    by (simp_all add: exampleEnv_def)
  from observer_capability [of "\<lparr>intersectionObserverDefined = False, sectionRefCurrent = True\<rparr>"] a
  have c: "mount \<lparr>intersectionObserverDefined = False, sectionRefCurrent = True\<rparr> = Inl ReferenceError"
    by blast
  from observer_capability [of exampleEnv] b obtain s0 where
    s0: "mount exampleEnv = Inr s0" "\<not> hasAnimated s0" "\<not> intervalActive s0" "observing s0"
    by auto
  from s0(1) have "s0 = exampleMounted" by (simp add: example_mount)
  with example_started have "\<exists>s. run exampleEnv s0 exampleEvents = Some (Inr s)" by simp
  with a b c s0 show ?thesis by blast
qed

text \<open>
  Without the observer, mounting ends in the error and not in a triggered component.
\<close>

theorem observer_absent_counterexample:
  "\<not> intersectionObserverDefined \<lparr>intersectionObserverDefined = False, sectionRefCurrent = True\<rparr> \<and>
   mount \<lparr>intersectionObserverDefined = False, sectionRefCurrent = True\<rparr> = Inl ReferenceError"
  by (simp add: mount_cases)

subsection \<open>The field \<open>displayAsK\<close>\<close>

text \<open>
  Claim C10. Two catalogs that differ only in the \<open>displayAsK\<close> fields of their entries
  are loaded into the same state, and every run in which the one is loaded instead of
  the other ends the same way: the same metrics, values and suffixes after every tick.
  Which formatting a metric gets depends on its position alone.
\<close>

theorem displayAsK_ignored:
  assumes "map withoutDisplayAsK cfgs1 = map withoutDisplayAsK cfgs2"
  shows
    "fetchResolved cfgs1 s = fetchResolved cfgs2 s \<and>
     run env s (pre @ FetchResolved cfgs1 # post) = run env s (pre @ FetchResolved cfgs2 # post)"
proof -
  from map_withoutDisplayAsK [OF assms] have
    v: "map value_c cfgs1 = map value_c cfgs2"
    and m: "map initialMetric cfgs1 = map initialMetric cfgs2"
    by simp_all
  have eq: "fetchResolved cfgs1 x = fetchResolved cfgs2 x" for x
    unfolding fetchResolved_def v m by (rule refl)
  then have "step env x (FetchResolved cfgs1) = step env x (FetchResolved cfgs2)" for x
    by simp
  then have "run env x (FetchResolved cfgs1 # post) = run env x (FetchResolved cfgs2 # post)" for x
    by simp
  then show ?thesis
    using eq by (simp add: run_append split: option.splits sum.splits)
qed

theorem displayAsK_ignored_witness:
  "map withoutDisplayAsK exampleCatalog =
     map withoutDisplayAsK (map (\<lambda>c. c\<lparr>displayAsK := Some False\<rparr>) exampleCatalog) \<and>
   exampleCatalog \<noteq> map (\<lambda>c. c\<lparr>displayAsK := Some False\<rparr>) exampleCatalog \<and>
   run exampleEnv exampleMounted
     ([Intersection [True], Commit] @
        FetchResolved (map (\<lambda>c. c\<lparr>displayAsK := Some False\<rparr>) exampleCatalog) #
        replicate 200 Tick) = Some (Inr exampleFinal)"
proof -
  have h: "map withoutDisplayAsK exampleCatalog =
     map withoutDisplayAsK (map (\<lambda>c. c\<lparr>displayAsK := Some False\<rparr>) exampleCatalog)"
    by (simp add: withoutDisplayAsK_def)
  have n: "exampleCatalog \<noteq> map (\<lambda>c. c\<lparr>displayAsK := Some False\<rparr>) exampleCatalog"
    by (simp add: exampleCatalog_def)
  have "run exampleEnv exampleMounted
     ([Intersection [True], Commit] @ FetchResolved exampleCatalog # replicate 200 Tick) =
     Some (Inr exampleFinal)"
    using example_run by (simp add: exampleEvents_def)
  with displayAsK_ignored [OF h, of exampleMounted exampleEnv "[Intersection [True], Commit]"
      "replicate 200 Tick"] h n
  show ?thesis by simp
qed

end
